theory Spec2Isabelle
  imports Main "HOL-Library.Sublist"
begin

text \<open>
  A model of \<^verbatim>\<open>runner/tasks.py\<close>, the tasks that run the geocoder tests region by region
  and category by category, read the summary line of each run, and render the results
  as a table.  Every function of the file is a definition below under its own name
  (without the leading underscore); the functions of Python's library they call
  (\<^verbatim>\<open>re\<close>, \<^verbatim>\<open>int\<close>, \<^verbatim>\<open>float\<close>, \<^verbatim>\<open>datetime.timedelta\<close>, \<^verbatim>\<open>str.format\<close>, \<^verbatim>\<open>os.path\<close>) are modelled
  as far as the tasks use them.  An exception is a value \<open>Inl x\<close> of a sum type, a
  returned value is \<open>Inr v\<close>; what a function logs, creates or writes is returned with
  its result.
\<close>

section \<open>Text and regular expressions\<close>

text \<open>
  A Python \<^verbatim>\<open>str\<close> is modelled as a \<^typ>\<open>string\<close>: a list of characters with codes
  below 256.  In that range the class \<^verbatim>\<open>\d\<close> of the \<^verbatim>\<open>re\<close> module is exactly the ten
  ASCII digits, and \<^verbatim>\<open>.\<close> is every character but the line feed.
\<close>

definition newline :: char where
  "newline = CHR 0x0A"

definition is_digit :: "char \<Rightarrow> bool" where
  "is_digit c = (c \<in> set ''0123456789'')"

text \<open>
  The patterns of \<^verbatim>\<open>runner/tasks.py\<close> use literal characters, \<^verbatim>\<open>.\<close>, \<^verbatim>\<open>\d\<close>, the greedy
  repetitions \<^verbatim>\<open>*\<close> and \<^verbatim>\<open>+\<close> of a single character class, the greedy option \<^verbatim>\<open>?\<close>,
  concatenation and (named) groups.
\<close>

datatype cls = Lit char | Dot | Digit

fun cls_ok :: "cls \<Rightarrow> char \<Rightarrow> bool" where
  "cls_ok (Lit c) x = (x = c)"
| "cls_ok Dot x = (x \<noteq> newline)"
| "cls_ok Digit x = is_digit x"

datatype re = Eps | One cls | Star cls | Plus cls | Seq re re | Opt re | Group string re

type_synonym groups = "string \<rightharpoonup> string"

text \<open>
  \<open>star_alts c s\<close> lists what may be left of \<open>s\<close> after a greedy repetition of the class
  \<open>c\<close>, in the order in which the backtracking matcher tries it: the longest run first.
\<close>

fun star_alts :: "cls \<Rightarrow> string \<Rightarrow> string list" where
  "star_alts c [] = [[]]"
| "star_alts c (x # xs) = (if cls_ok c x then star_alts c xs @ [x # xs] else [x # xs])"

text \<open>
  \<open>runs r (s, g)\<close> lists every way in which \<open>r\<close> matches a prefix of \<open>s\<close>, as the
  remaining text and the groups set so far, in the matcher's order of preference.  The
  match that \<^verbatim>\<open>re\<close> reports is the first of the list.
\<close>

fun runs :: "re \<Rightarrow> string \<times> groups \<Rightarrow> (string \<times> groups) list" where
  "runs Eps sg = [sg]"
| "runs (One c) (s, g) =
     (case s of [] \<Rightarrow> [] | x # xs \<Rightarrow> if cls_ok c x then [(xs, g)] else [])"
| "runs (Star c) (s, g) = map (\<lambda>s'. (s', g)) (star_alts c s)"
| "runs (Plus c) (s, g) =
     (case s of [] \<Rightarrow> []
      | x # xs \<Rightarrow> if cls_ok c x then map (\<lambda>s'. (s', g)) (star_alts c xs) else [])"
| "runs (Seq a b) sg = concat (map (runs b) (runs a sg))"
| "runs (Opt a) sg = runs a sg @ [sg]"
| "runs (Group n a) (s, g) =
     map (\<lambda>(s', g'). (s', g'(n \<mapsto> take (length s - length s') s))) (runs a (s, g))"

definition Str :: "string \<Rightarrow> re" where
  "Str w = foldr (\<lambda>c r. Seq (One (Lit c)) r) w Eps"

text \<open>\<^verbatim>\<open>pattern.match(line)\<close>: anchored at the start of the line only.\<close>

definition re_match :: "re \<Rightarrow> string \<Rightarrow> groups option" where
  "re_match r line = (case runs r (line, Map.empty) of [] \<Rightarrow> None | (s, g) # _ \<Rightarrow> Some g)"

text \<open>\<^verbatim>\<open>RESULT_LINE_PATTERN = re.compile("===+.*===+")\<close>\<close>

definition RESULT_LINE_PATTERN :: re where
  "RESULT_LINE_PATTERN =
     Seq (Str ''=='') (Seq (Plus (Lit CHR ''=''))
       (Seq (Star Dot) (Seq (Str ''=='') (Plus (Lit CHR ''='')))))"

text \<open>
  \<^verbatim>\<open>RESULT_PATTERN = re.compile("===+( (?P<failed>\d+) failed)?,? ((?P<success>\d+) passed)?.*in (?P<time>.*) seconds.*")\<close>
\<close>

definition RESULT_PATTERN :: re where
  "RESULT_PATTERN =
     Seq (Str ''=='') (Seq (Plus (Lit CHR ''=''))
       (Seq (Opt (Seq (Str '' '') (Seq (Group ''failed'' (Plus Digit)) (Str '' failed''))))
         (Seq (Opt (One (Lit CHR '','')))
           (Seq (Str '' '')
             (Seq (Opt (Seq (Group ''success'' (Plus Digit)) (Str '' passed'')))
               (Seq (Star Dot)
                 (Seq (Str ''in '')
                   (Seq (Group ''time'' (Star Dot))
                     (Seq (Str '' seconds'') (Star Dot))))))))))"

section \<open>Numbers of Python\<close>

subsection \<open>Decimal numerals\<close>

definition digit_val :: "char \<Rightarrow> nat" where
  "digit_val c = of_char c - 48"

definition digit_chr :: "nat \<Rightarrow> char" where
  "digit_chr d = ''0123456789'' ! d"

definition digits_val :: "string \<Rightarrow> nat" where
  "digits_val ds = foldl (\<lambda>a c. 10 * a + digit_val c) 0 ds"

text \<open>\<^verbatim>\<open>str(n)\<close> of an integer.\<close>

fun dec :: "nat \<Rightarrow> string" where
  "dec n = (if n < 10 then [digit_chr n] else dec (n div 10) @ [digit_chr (n mod 10)])"

declare dec.simps [simp del]

definition str_int :: "int \<Rightarrow> string" where
  "str_int i = (if i < 0 then CHR ''-'' # dec (nat (- i)) else dec (nat i))"

text \<open>\<^verbatim>\<open>"%02d"\<close> and \<^verbatim>\<open>"%06d"\<close> of a non-negative integer.\<close>

definition zero_pad :: "nat \<Rightarrow> nat \<Rightarrow> string" where
  "zero_pad w n = replicate (w - length (dec n)) CHR ''0'' @ dec n"

datatype exc =
    ValueError | TypeError | OverflowError | ZeroDivisionError | KeyError | IndexError
  | AttributeError | FileExistsError | FileNotFoundError | ConnectionError | HTTPError
  | TemplateError | Exception string

subsection \<open>Whitespace, signs and underscores in numerals\<close>

text \<open>
  \<^verbatim>\<open>int\<close> and \<^verbatim>\<open>float\<close> first turn the two spaces above the ASCII range (codes 0x85 and
  0xA0) into blanks, then skip the ASCII white space (codes 9 to 13 and 32) around the
  numeral.  The separators 0x1C to 0x1F are left alone and end up rejected.
\<close>

definition is_space :: "char \<Rightarrow> bool" where
  "is_space c = (c \<in> {CHR 0x09, CHR 0x0A, CHR 0x0B, CHR 0x0C, CHR 0x0D, CHR '' '',
                        CHR 0x85, CHR 0xA0})"

definition strip :: "string \<Rightarrow> string" where
  "strip s = rev (dropWhile is_space (rev (dropWhile is_space s)))"

text \<open>
  An underscore is accepted only between two digits; the check runs over the whole
  text, with the character before the text taken as NUL.
\<close>

fun underscores_ok :: "char \<Rightarrow> string \<Rightarrow> bool" where
  "underscores_ok prev [] = (prev \<noteq> CHR ''_'')"
| "underscores_ok prev (c # cs) =
     ((if c = CHR ''_'' then is_digit prev
       else if prev = CHR ''_'' then is_digit c else True)
      \<and> underscores_ok c cs)"

definition split_sign :: "string \<Rightarrow> bool \<times> string" where
  "split_sign s =
     (case s of [] \<Rightarrow> (False, [])
      | c # cs \<Rightarrow> if c = CHR ''-'' then (True, cs)
                  else if c = CHR ''+'' then (False, cs) else (False, s))"

definition to_lower :: "char \<Rightarrow> char" where
  "to_lower c =
     (case map_of (zip ''ABCDEFGHIJKLMNOPQRSTUVWXYZ'' ''abcdefghijklmnopqrstuvwxyz'') c of
        None \<Rightarrow> c | Some l \<Rightarrow> l)"

subsection \<open>\<^verbatim>\<open>int(text)\<close>\<close>

text \<open>
  Integers are unbounded, as the language defines them.  The cap that CPython 3.11 and
  later put on the number of digits \<^verbatim>\<open>int\<close> converts (4300 unless configured otherwise)
  is not part of the model.
\<close>

definition py_int :: "string \<Rightarrow> exc + int" where
  "py_int s =
     (if \<not> underscores_ok (CHR 0x00) s then Inl ValueError
      else let (neg, ds) = split_sign (strip (filter (\<lambda>c. c \<noteq> CHR ''_'') s))
           in if ds \<noteq> [] \<and> list_all is_digit ds
              then Inr (if neg then - int (digits_val ds) else int (digits_val ds))
              else Inl ValueError)"

subsection \<open>Binary floating point\<close>

text \<open>
  A \<^verbatim>\<open>float\<close> is an IEEE 754 binary64 number.  \<open>Fin neg m q\<close> is the finite number
  \<open>m \<sqdot> 2\<^sup>q\<close>, taken negative when \<open>neg\<close> holds; the arithmetic below is exact integer
  arithmetic followed by one rounding to the nearest representable number, ties to
  the even mantissa, as the hardware does it.
\<close>

datatype pyfloat = Fin bool nat int | Inf bool | NaN

fun bits :: "nat \<Rightarrow> nat" where
  "bits n = (if n = 0 then 0 else Suc (bits (n div 2)))"

declare bits.simps [simp del]

text \<open>\<open>rne_div a b\<close>: the integer nearest to \<open>a / b\<close>, the even one of two.\<close>

definition rne_div :: "nat \<Rightarrow> nat \<Rightarrow> nat" where
  "rne_div a b =
     (let k = a div b; r = a mod b
      in if 2 * r < b then k else if b < 2 * r then k + 1
         else if even k then k else k + 1)"

text \<open>For positive \<open>n\<close> and \<open>d\<close>: the \<open>e\<close> with \<open>2\<^sup>e \<le> n / d < 2\<^sup>e\<^sup>+\<^sup>1\<close>.\<close>

definition floor_log2 :: "nat \<Rightarrow> nat \<Rightarrow> int" where
  "floor_log2 n d =
     (let e = int (bits n) - int (bits d)
      in if d * 2 ^ nat e \<le> n * 2 ^ nat (- e) then e else e - 1)"

text \<open>
  \<open>round64 n d\<close> rounds the quotient \<open>n / d\<close> to binary64: 53 bits of mantissa, the
  exponent of a subnormal number held at \<open>-1074\<close>, and \<open>None\<close> on overflow.
\<close>

definition round64 :: "nat \<Rightarrow> nat \<Rightarrow> (nat \<times> int) option" where
  "round64 n d =
     (if n = 0 then Some (0, 0)
      else let q = max (floor_log2 n d) (- 1022) - 52;
               m = rne_div (n * 2 ^ nat (- q)) (d * 2 ^ nat q)
           in if 2 ^ 1024 \<le> m * 2 ^ nat q then None else Some (m, q))"

text \<open>Integer part and fraction (as a count of \<open>2\<^sup>q\<close>) of \<open>m \<sqdot> 2\<^sup>q\<close>: C's \<^verbatim>\<open>modf\<close>.\<close>

definition int_part :: "nat \<Rightarrow> int \<Rightarrow> nat" where
  "int_part m q = (if 0 \<le> q then m * 2 ^ nat q else m div 2 ^ nat (- q))"

definition frac_part :: "nat \<Rightarrow> int \<Rightarrow> nat" where
  "frac_part m q = (if 0 \<le> q then 0 else m mod 2 ^ nat (- q))"

subsection \<open>\<^verbatim>\<open>float(text)\<close>\<close>

text \<open>
  The numeral \<open>digits [. digits] [e [sign] digits]\<close> with at least one digit before
  the exponent, as the pair \<open>(D, k)\<close> standing for \<open>D \<sqdot> 10\<^sup>k\<close>.
\<close>

definition parse_decimal :: "string \<Rightarrow> (nat \<times> int) option" where
  "parse_decimal r =
     (let ip = takeWhile is_digit r;
          r1 = dropWhile is_digit r;
          (fp, r2) = (case r1 of [] \<Rightarrow> ([], [])
                      | c # cs \<Rightarrow> if c = CHR ''.''
                                  then (takeWhile is_digit cs, dropWhile is_digit cs)
                                  else ([], r1))
      in if ip = [] \<and> fp = [] then None
         else case r2 of
                [] \<Rightarrow> Some (digits_val (ip @ fp), - int (length fp))
              | c # cs \<Rightarrow>
                  if c = CHR ''e'' \<or> c = CHR ''E''
                  then (let (neg, ds) = split_sign cs
                        in if ds \<noteq> [] \<and> list_all is_digit ds
                           then Some (digits_val (ip @ fp),
                                  (if neg then - int (digits_val ds) else int (digits_val ds))
                                    - int (length fp))
                           else None)
                  else None)"

definition py_float :: "string \<Rightarrow> exc + pyfloat" where
  "py_float s =
     (if \<not> underscores_ok (CHR 0x00) s then Inl ValueError
      else let (neg, r) = split_sign (strip (filter (\<lambda>c. c \<noteq> CHR ''_'') s))
           in if map to_lower r = ''inf'' \<or> map to_lower r = ''infinity'' then Inr (Inf neg)
              else if map to_lower r = ''nan'' then Inr NaN
              else case parse_decimal r of
                     None \<Rightarrow> Inl ValueError
                   | Some (D, k) \<Rightarrow>
                       (case round64 (D * 10 ^ nat k) (10 ^ nat (- k)) of
                          None \<Rightarrow> Inr (Inf neg)
                        | Some (m, q) \<Rightarrow> Inr (Fin neg m q)))"

text \<open>Truth value of a float: every float but zero.\<close>

fun float_truthy :: "pyfloat \<Rightarrow> bool" where
  "float_truthy (Fin neg m q) = (m \<noteq> 0)"
| "float_truthy (Inf neg) = True"
| "float_truthy NaN = True"

subsection \<open>\<^verbatim>\<open>a / b\<close> of two integers, and the format \<^verbatim>\<open>.0%\<close>\<close>

definition true_div :: "int \<Rightarrow> int \<Rightarrow> exc + pyfloat" where
  "true_div a b =
     (if b = 0 then Inl ZeroDivisionError
      else case round64 (nat \<bar>a\<bar>) (nat \<bar>b\<bar>) of
             None \<Rightarrow> Inl OverflowError
           | Some (m, q) \<Rightarrow> Inr (Fin ((a < 0) \<noteq> (b < 0)) m q))"

text \<open>
  \<^verbatim>\<open>f"{x:.0%}"\<close> multiplies the float by 100 (one rounding), prints the product with no
  digit after the point (the nearest integer of the product, ties to even) and appends
  the percent sign.
\<close>

fun format_pct0 :: "pyfloat \<Rightarrow> string" where
  "format_pct0 (Fin neg m q) =
     (case round64 (m * 100 * 2 ^ nat q) (2 ^ nat (- q)) of
        None \<Rightarrow> (if neg then ''-inf%'' else ''inf%'')
      | Some (m', q') \<Rightarrow>
          (if neg then ''-'' else []) @ dec (rne_div (m' * 2 ^ nat q') (2 ^ nat (- q'))) @ ''%'')"
| "format_pct0 (Inf neg) = (if neg then ''-inf%'' else ''inf%'')"
| "format_pct0 NaN = ''nan%''"

subsection \<open>\<^verbatim>\<open>datetime.timedelta(seconds=x)\<close> and its text\<close>

record timedelta =
  days :: int
  seconds :: int
  microseconds :: int

text \<open>
  A count of microseconds is split into days, seconds of the day and microseconds of
  the second (floor division); more than 999999999 days either way overflow.
\<close>

definition timedelta_of_us :: "int \<Rightarrow> exc + timedelta" where
  "timedelta_of_us us =
     (let s = us div 1000000; d = s div 86400
      in if 999999999 < \<bar>d\<bar> then Inl OverflowError
         else Inr \<lparr>days = d, seconds = s mod 86400, microseconds = us mod 1000000\<rparr>)"

text \<open>
  The constructor splits the float into its integer part and its fraction, multiplies
  the fraction by \<open>10\<^sup>6\<close> in floating point, splits the product again and rounds what
  is left to a whole microsecond, a half going to the even total.  The integer part of
  NaN is a \<^verbatim>\<open>ValueError\<close>, that of an infinity an \<^verbatim>\<open>OverflowError\<close>.
\<close>

fun timedelta_seconds :: "pyfloat \<Rightarrow> exc + timedelta" where
  "timedelta_seconds NaN = Inl ValueError"
| "timedelta_seconds (Inf neg) = Inl OverflowError"
| "timedelta_seconds (Fin neg m q) =
     (let sg = (if neg then - 1 else 1);
          x = sg * int (int_part m q) * 1000000;
          f = frac_part m q
      in if f = 0 then timedelta_of_us x
         else case round64 (f * 1000000) (2 ^ nat (- q)) of
                None \<Rightarrow> Inl OverflowError
              | Some (m', q') \<Rightarrow>
                  (let y = x + sg * int (int_part m' q');
                       l = frac_part m' q';
                       h = 2 ^ nat (- q');
                       whole = (if 2 * l < h then 0 else if h < 2 * l then sg
                                else if odd y then sg else 0)
                   in timedelta_of_us (y + whole)))"

definition str_timedelta :: "timedelta \<Rightarrow> string" where
  "str_timedelta t =
     (let mm = seconds t div 60; ss = seconds t mod 60; hh = mm div 60; mi = mm mod 60
      in (if days t \<noteq> 0
          then str_int (days t) @ '' day'' @ (if \<bar>days t\<bar> = 1 then [] else ''s'') @ '', ''
          else [])
         @ dec (nat hh) @ '':'' @ zero_pad 2 (nat mi) @ '':'' @ zero_pad 2 (nat ss)
         @ (if microseconds t \<noteq> 0 then ''.'' @ zero_pad 6 (nat (microseconds t)) else []))"

section \<open>Summary Parser\<close>

text \<open>
  Values of a result record: text, integers and \<^verbatim>\<open>None\<close>.  A record is a dictionary
  from field names to values.
\<close>

datatype pyval = PNone | PInt int | PStr string

type_synonym dict = "string \<rightharpoonup> pyval"

text \<open>What \<^verbatim>\<open>logging\<close> receives: the level and the message.\<close>

datatype level = INFO | WARNING | ERROR

type_synonym log_entry = "level \<times> string"

text \<open>
  \<^verbatim>\<open>_safe_cast(val, to_type)\<close>: \<^verbatim>\<open>None\<close> when the conversion raises \<^verbatim>\<open>ValueError\<close> or
  \<^verbatim>\<open>TypeError\<close>; any other exception goes through.
\<close>

definition safe_cast :: "string \<Rightarrow> (string \<Rightarrow> exc + 'a) \<Rightarrow> exc + 'a option" where
  "safe_cast val to_type =
     (case to_type val of
        Inr v \<Rightarrow> Inr (Some v)
      | Inl e \<Rightarrow> if e = ValueError \<or> e = TypeError then Inr None else Inl e)"

definition bind :: "exc + 'a \<Rightarrow> ('a \<Rightarrow> exc + 'b) \<Rightarrow> exc + 'b" where
  "bind x f = (case x of Inl e \<Rightarrow> Inl e | Inr v \<Rightarrow> f v)"

text \<open>
  Lines 93 and 94 of \<^verbatim>\<open>_parse_log_line\<close>: the text of the group \<^verbatim>\<open>time\<close> cast to a float,
  and the duration built from it.  A time that could not be cast, and the time zero,
  give \<^verbatim>\<open>None\<close>.
\<close>

definition seconds_duration :: "string option \<Rightarrow> exc + timedelta option" where
  "seconds_duration tm =
     bind (case tm of None \<Rightarrow> Inr None | Some v \<Rightarrow> safe_cast v py_float) (\<lambda>time.
       case time of
         None \<Rightarrow> Inr None
       | Some x \<Rightarrow> if float_truthy x
                   then bind (timedelta_seconds x) (\<lambda>d. Inr (Some d))
                   else Inr None)"

text \<open>Line 100: \<^verbatim>\<open>str(duration)\<close>, of a duration or of \<^verbatim>\<open>None\<close>.\<close>

definition str_duration :: "timedelta option \<Rightarrow> string" where
  "str_duration duration = (case duration of None \<Rightarrow> ''None'' | Some d \<Rightarrow> str_timedelta d)"

text \<open>
  Lines 89 to 92: the text of a count group cast to an integer; a group that took no
  part in the match counts as 0.
\<close>

definition count_of :: "string option \<Rightarrow> exc + int option" where
  "count_of m =
     (case m of None \<Rightarrow> Inr (Some 0)
      | Some v \<Rightarrow> if v = [] then Inr (Some 0) else safe_cast v py_int)"

text \<open>
  \<^verbatim>\<open>_parse_log_line(line)\<close>, as the messages logged and either the exception raised or
  the dictionary returned.  A count that \<^verbatim>\<open>_safe_cast\<close> could not convert is \<^verbatim>\<open>None\<close>, and
  adding \<^verbatim>\<open>None\<close> to a number is a \<^verbatim>\<open>TypeError\<close>.  With no test at all the ratio is the
  integer 0, which the format \<^verbatim>\<open>.0%\<close> prints as the float zero.
\<close>

definition parse_log_line :: "string \<Rightarrow> log_entry list \<times> (exc + dict)" where
  "parse_log_line line =
     (case re_match RESULT_PATTERN line of
        None \<Rightarrow> ([(ERROR, ''impossible to parse results: '' @ line)], Inr Map.empty)
      | Some g \<Rightarrow> ([],
          bind (count_of (g ''failed'')) (\<lambda>failed.
          bind (count_of (g ''success'')) (\<lambda>success.
          bind (seconds_duration (g ''time'')) (\<lambda>duration.
          case (failed, success) of
            (Some f, Some s) \<Rightarrow>
              (let total = f + s
               in bind (if total \<noteq> 0 then true_div s total else Inr (Fin False 0 0)) (\<lambda>ratio.
                  Inr [''failed'' \<mapsto> PInt f,
                       ''total'' \<mapsto> PInt total,
                       ''duration'' \<mapsto> PStr (str_duration duration),
                       ''ratio'' \<mapsto> PStr (format_pct0 ratio)]))
          | _ \<Rightarrow> Inl TypeError)))))"

section \<open>Line Classifier and Result Extractor\<close>

text \<open>\<^verbatim>\<open>text.split("\n")\<close>: never empty, one more piece than there are separators.\<close>

fun split_on :: "char \<Rightarrow> string \<Rightarrow> string list" where
  "split_on c [] = [[]]"
| "split_on c (x # xs) =
     (if x = c then [] # split_on c xs
      else case split_on c xs of [] \<Rightarrow> [[x]] | l # ls \<Rightarrow> (x # l) # ls)"

definition is_banner :: "string \<Rightarrow> bool" where
  "is_banner l = (re_match RESULT_LINE_PATTERN l \<noteq> None)"

text \<open>
  The loop of \<^verbatim>\<open>_get_results\<close> over the lines, last line first: a line that is no
  banner is skipped; the first banner is logged, parsed and merged into the record, and
  the loop returns there.
\<close>

fun scan_lines :: "dict \<Rightarrow> string list \<Rightarrow> log_entry list \<times> (exc + dict)" where
  "scan_lines res [] = ([], Inr res)"
| "scan_lines res (l # ls) =
     (if \<not> is_banner l then scan_lines res ls
      else let (logged, parsed) = parse_log_line l
           in ((INFO, l) # logged, bind parsed (\<lambda>d. Inr (res ++ d))))"

definition get_results :: "string \<Rightarrow> string \<Rightarrow> string \<Rightarrow> log_entry list \<times> (exc + dict)" where
  "get_results region category pytest_logs =
     scan_lines [''region'' \<mapsto> PStr region, ''category'' \<mapsto> PStr category]
       (rev (split_on newline pytest_logs))"

section \<open>Report Renderer\<close>

text \<open>\<^verbatim>\<open>str(v)\<close> and the truth value of a record value.\<close>

fun py_str :: "pyval \<Rightarrow> string" where
  "py_str PNone = ''None''"
| "py_str (PInt i) = str_int i"
| "py_str (PStr s) = s"

fun truthy :: "pyval \<Rightarrow> bool" where
  "truthy PNone = False"
| "truthy (PInt i) = (i \<noteq> 0)"
| "truthy (PStr s) = (s \<noteq> [])"

text \<open>\<^verbatim>\<open>sep.join(parts)\<close>\<close>

fun join :: "string \<Rightarrow> string list \<Rightarrow> string" where
  "join sep [] = []"
| "join sep [x] = x"
| "join sep (x # y # ys) = x @ sep @ join sep (y # ys)"

text \<open>
  The format \<^verbatim>\<open>^w\<close>: the text centred in \<open>w\<close> columns, the smaller half of the padding
  on the left; a text of \<open>w\<close> characters or more is left as it is.
\<close>

definition center :: "nat \<Rightarrow> string \<Rightarrow> string" where
  "center w s =
     (let pad = w - length s; left = pad div 2
      in replicate left CHR '' '' @ s @ replicate (pad - left) CHR '' '')"

text \<open>
  The row template is built from the column names and filled by \<^verbatim>\<open>str.format\<close> with the
  names as keywords.  That reads a name as a plain keyword when the name is not empty,
  is not a number and holds none of the characters \<^verbatim>\<open>{}[].!:\<close>; the model covers such
  names and answers \<open>TemplateError\<close> for a column list with any other name.
\<close>

definition plain_key :: "string \<Rightarrow> bool" where
  "plain_key k = (k \<noteq> [] \<and> \<not> list_all is_digit k \<and> list_all (\<lambda>c. c \<notin> set ''{}[].!:'') k)"

type_synonym widths = "string \<rightharpoonup> nat"

text \<open>Lines 38 and 39: every column starts as wide as its name and two blanks.\<close>

definition init_lengths :: "string list \<Rightarrow> widths" where
  "init_lengths keys = fold (\<lambda>key lengths. lengths(key \<mapsto> length key + 2)) keys Map.empty"

text \<open>Lines 41 to 44, for one record: a longer value widens its column.\<close>

definition widen :: "string list \<Rightarrow> dict \<Rightarrow> widths \<Rightarrow> widths" where
  "widen keys d lengths0 =
     fold (\<lambda>key lengths.
             let i = length (py_str (case d key of None \<Rightarrow> PStr [] | Some v \<Rightarrow> v))
             in case lengths key of
                  None \<Rightarrow> lengths
                | Some w \<Rightarrow> if w < i then lengths(key \<mapsto> i + 2) else lengths)
          keys lengths0"

definition width :: "widths \<Rightarrow> string \<Rightarrow> nat" where
  "width lengths key = (case lengths key of None \<Rightarrow> 0 | Some w \<Rightarrow> w)"

text \<open>The template filled with one text per column.\<close>

definition fill :: "widths \<Rightarrow> string list \<Rightarrow> (string \<Rightarrow> string) \<Rightarrow> string" where
  "fill lengths keys row = join ''|'' (map (\<lambda>key. center (width lengths key) (row key)) keys)"

text \<open>Line 56: \<^verbatim>\<open>d.get(key) or "_"\<close>, as the text the template prints.\<close>

definition cell :: "dict \<Rightarrow> string \<Rightarrow> string" where
  "cell d key = (case d key of None \<Rightarrow> ''_'' | Some v \<Rightarrow> if truthy v then py_str v else ''_'')"

definition pretty_print :: "dict list \<Rightarrow> string list \<Rightarrow> exc + string list" where
  "pretty_print dicts keys =
     (if dicts = [] then Inr []
      else if \<not> list_all plain_key keys then Inl TemplateError
      else let lengths = fold (widen keys) dicts (init_lengths keys)
           in Inr ([[]]
                @ [fill lengths keys (\<lambda>key. key)]
                @ [fill lengths keys (\<lambda>key. replicate (width lengths key) CHR ''-'')]
                @ map (\<lambda>d. fill lengths keys (cell d)) dicts))"

definition REPORT_COLUMN :: "string list" where
  "REPORT_COLUMN = [''region'', ''category'', ''failed'', ''total'', ''ratio'', ''duration'']"

section \<open>Run Orchestrator\<close>

subsection \<open>Configuration, environment and state\<close>

text \<open>
  A test category of the configuration: \<open>cat_name\<close> and \<open>selector\<close> are \<open>None\<close> when the
  key is missing, \<open>remaining_tests\<close> is the truth of \<^verbatim>\<open>category.get("remaining_tests")\<close>.
\<close>

record category =
  cat_name :: "string option"
  selector :: "string option"
  remaining_tests :: bool

text \<open>
  The invoke context.  \<open>output_dir\<close> is \<open>None\<close> until the run directory is set.
  \<open>conf_url\<close> is \<open>None\<close> when the configuration has no key \<^verbatim>\<open>url\<close>, \<open>Some None\<close> when
  the key holds \<^verbatim>\<open>null\<close>, and \<open>Some (Some u)\<close> when it holds the text \<open>u\<close>.  The other
  keys are taken to be configured.
\<close>

record invoke_ctx =
  output_dir :: "string option"
  base_output_dir :: string
  geocoder_sources :: string
  additional_pytest_args :: "string list option"
  categories :: "category list"
  regions :: "string list"
  conf_url :: "string option option"

text \<open>What a file was written with.\<close>

datatype content =
    Text string
  | JsonDump "(string \<times> pyval) list"
  | CsvTable "string list" "dict list"

text \<open>
  The state the tasks change: the context, the directories that exist (those found
  at the start and those the tasks make; a parent that \<^verbatim>\<open>os.makedirs\<close> makes on the way
  is not recorded), the files written and the messages logged, both oldest first.
  Opening a file for writing is taken to succeed.
\<close>

record state =
  ctx :: invoke_ctx
  dirs :: "string set"
  written :: "(string \<times> content) list"
  logged :: "log_entry list"

text \<open>The answer of the status endpoint: what \<^verbatim>\<open>.json()\<close> gives.\<close>

datatype body = NotJson | JsonObject dict | JsonOther

record response =
  http_error :: bool
  payload :: body

text \<open>
  What the tasks read from outside: the clock (\<^verbatim>\<open>datetime.now().isoformat()\<close>), the
  output of a shell command, the answer to an HTTP request (or the exception
  \<^verbatim>\<open>requests.get\<close> raises), and the text \<^verbatim>\<open>repr\<close> gives for a record and for a category.
\<close>

record env =
  now :: string
  shell :: "string \<Rightarrow> string"
  http_get :: "string \<Rightarrow> exc + response"
  repr_dict :: "dict \<Rightarrow> string"
  repr_category :: "category \<Rightarrow> string"

definition log_msg :: "level \<Rightarrow> string \<Rightarrow> state \<Rightarrow> state" where
  "log_msg lv msg st = st\<lparr>logged := logged st @ [(lv, msg)]\<rparr>"

subsection \<open>Paths\<close>

definition starts_with :: "string \<Rightarrow> string \<Rightarrow> bool" where
  "starts_with w s = (take (length w) s = w)"

text \<open>\<^verbatim>\<open>os.path.join(a, b)\<close> and \<^verbatim>\<open>os.path.dirname(p)\<close> of \<^verbatim>\<open>posixpath\<close>.\<close>

definition path_join :: "string \<Rightarrow> string \<Rightarrow> string" where
  "path_join a b =
     (if starts_with ''/'' b then b
      else if a = [] \<or> last a = CHR ''/'' then a @ b
      else a @ ''/'' @ b)"

definition dirname :: "string \<Rightarrow> string" where
  "dirname p =
     (let head = rev (dropWhile (\<lambda>c. c \<noteq> CHR ''/'') (rev p))
      in if head \<noteq> [] \<and> \<not> list_all (\<lambda>c. c = CHR ''/'') head
         then rev (dropWhile (\<lambda>c. c = CHR ''/'') (rev head))
         else head)"

text \<open>\<^verbatim>\<open>os.makedirs(d)\<close>: the directory must be new.\<close>

definition makedirs :: "string \<Rightarrow> state \<Rightarrow> (exc + unit) \<times> state" where
  "makedirs d st =
     (if d = [] then (Inl FileNotFoundError, st)
      else if d \<in> dirs st then (Inl FileExistsError, st)
      else (Inr (), st\<lparr>dirs := insert d (dirs st)\<rparr>))"

subsection \<open>\<^verbatim>\<open>_init_output_dir\<close>\<close>

definition init_output_dir :: "env \<Rightarrow> string \<Rightarrow> state \<Rightarrow> (exc + string) \<times> state" where
  "init_output_dir e test_name st =
     (case output_dir (ctx st) of
        Some d \<Rightarrow> (Inr d, st)
      | None \<Rightarrow>
          (let dt = now e;
               dir_name = base_output_dir (ctx st) @ ''/'' @ test_name @ ''_'' @ dt
           in case makedirs dir_name st of
                (Inl x, st') \<Rightarrow> (Inl x, st')
              | (Inr u, st') \<Rightarrow>
                  (Inr dir_name, st'\<lparr>ctx := (ctx st')\<lparr>output_dir := Some dir_name\<rparr>\<rparr>)))"

subsection \<open>Selectors\<close>

text \<open>\<^verbatim>\<open>_get_remaining_tests(ctx)\<close>\<close>

definition get_remaining_tests :: "invoke_ctx \<Rightarrow> string" where
  "get_remaining_tests c =
     (let selectors = List.map_filter selector (categories c)
      in join '' and '' (map (\<lambda>s. ''not '' @ s) selectors))"

text \<open>Lines 129 to 132 of \<^verbatim>\<open>run_pytest\<close>: the selector of a category.\<close>

definition category_selector :: "invoke_ctx \<Rightarrow> category \<Rightarrow> exc + string" where
  "category_selector c cat =
     (if remaining_tests cat then Inr (get_remaining_tests c)
      else case selector cat of None \<Rightarrow> Inl KeyError | Some s \<Rightarrow> Inr s)"

subsection \<open>\<^verbatim>\<open>run_pytest\<close>\<close>

definition run_pytest ::
  "env \<Rightarrow> string \<Rightarrow> string \<Rightarrow> string \<Rightarrow> category \<Rightarrow> state \<Rightarrow> (exc + dict) \<times> state" where
  "run_pytest e url name region cat st0 =
     (case init_output_dir e name st0 of
        (Inl x, st) \<Rightarrow> (Inl x, st)
      | (Inr out, st) \<Rightarrow>
          (let directory = geocoder_sources (ctx st) @ ''/geocoder_tester/world/'' @ region
           in case cat_name cat of
                None \<Rightarrow> (Inl KeyError, st)
              | Some category_name \<Rightarrow>
                 (case category_selector (ctx st) cat of
                    Inl x \<Rightarrow> (Inl x, st)
                  | Inr sel \<Rightarrow>
                     (let additional_args =
                            join '' '' (case additional_pytest_args (ctx st) of
                                          None \<Rightarrow> [] | Some a \<Rightarrow> a);
                          test_name = region @ ''_'' @ category_name;
                          report_file = path_join out (test_name @ ''_report.txt'');
                          xml_report_file = path_join out (test_name @ ''_report.xml'');
                          py_test = join '' ''
                            [''pytest '' @ directory,
                             ''--api-url '' @ url,
                             ''-k '' @ [CHR 0x22] @ sel @ [CHR 0x22],
                             ''--loose-compare'',
                             ''--save-report='' @ report_file,
                             ''--tb=short '' @ additional_args,
                             ''--junitxml='' @ xml_report_file];
                          st1 = log_msg INFO (''runnning '' @ py_test) st;
                          log_file = path_join out (test_name @ ''.log'')
                      in case (if dirname log_file \<notin> dirs st1
                               then makedirs (dirname log_file) st1 else (Inr (), st1)) of
                           (Inl x, st2) \<Rightarrow> (Inl x, st2)
                         | (Inr u, st2) \<Rightarrow>
                            (let stdout = shell e py_test;
                                 st3 = st2\<lparr>written := written st2 @ [(log_file, Text stdout)]\<rparr>;
                                 (msgs, res) = get_results region category_name stdout;
                                 st4 = st3\<lparr>logged := logged st3 @ msgs\<rparr>
                             in case res of
                                  Inl x \<Rightarrow> (Inl x, st4)
                                | Inr r \<Rightarrow>
                                    (Inr r, log_msg INFO (''result = '' @ repr_dict e r) st4))))))"

subsection \<open>\<^verbatim>\<open>_get_version\<close>\<close>

text \<open>\<^verbatim>\<open>w in s\<close> and \<^verbatim>\<open>s.replace(old, new)\<close> for a text \<open>old\<close> that is not empty.\<close>

fun contains :: "string \<Rightarrow> string \<Rightarrow> bool" where
  "contains w [] = (w = [])"
| "contains w (c # cs) = (starts_with w (c # cs) \<or> contains w cs)"

fun replace :: "string \<Rightarrow> string \<Rightarrow> string \<Rightarrow> string" where
  "replace old new [] = []"
| "replace old new (c # cs) =
     (if starts_with old (c # cs) then new @ replace old new (drop (length old - 1) cs)
      else c # replace old new cs)"

text \<open>
  The request is sent before the \<^verbatim>\<open>try\<close> block is entered; \<^verbatim>\<open>raise_for_status\<close>,
  \<^verbatim>\<open>.json()\<close> and \<^verbatim>\<open>.get("version")\<close> run inside it.  A missing key gives \<^verbatim>\<open>None\<close>.
\<close>

definition get_version :: "env \<Rightarrow> string \<Rightarrow> state \<Rightarrow> (exc + pyval) \<times> state" where
  "get_version e url st =
     (if \<not> contains ''/autocomplete'' url then (Inr PNone, st)
      else let status_url = replace ''/autocomplete'' ''/status'' url
           in case http_get e status_url of
                Inl x \<Rightarrow> (Inl x, st)
              | Inr status_resp \<Rightarrow>
                  (case (if http_error status_resp then Inl HTTPError
                         else case payload status_resp of
                                NotJson \<Rightarrow> Inl ValueError
                              | JsonOther \<Rightarrow> Inl AttributeError
                              | JsonObject d \<Rightarrow>
                                  Inr (case d ''version'' of None \<Rightarrow> PNone | Some v \<Rightarrow> v)) of
                     Inr v \<Rightarrow> (Inr v, st)
                   | Inl x \<Rightarrow>
                       (Inr PNone, log_msg WARNING ''Failed to fetch geocoder version'' st)))"

subsection \<open>\<^verbatim>\<open>run_all\<close>\<close>

text \<open>The two nested loops over regions and categories, collecting the records.\<close>

fun run_each ::
  "('x \<Rightarrow> state \<Rightarrow> (exc + dict) \<times> state) \<Rightarrow> 'x list \<Rightarrow> dict list \<Rightarrow> state
     \<Rightarrow> (exc + dict list) \<times> state" where
  "run_each f [] res st = (Inr res, st)"
| "run_each f (x # xs) res st =
     (case f x st of
        (Inl err, st') \<Rightarrow> (Inl err, st')
      | (Inr r, st') \<Rightarrow> run_each f xs (res @ [r]) st')"

definition write_reports ::
  "string \<Rightarrow> string \<Rightarrow> pyval \<Rightarrow> dict list \<Rightarrow> state \<Rightarrow> (exc + unit) \<times> state" where
  "write_reports name url version res st =
     (case pretty_print res REPORT_COLUMN of
        Inl x \<Rightarrow> (Inl x, st)
      | Inr table \<Rightarrow>
          (let report = join [newline] table;
               st1 = log_msg INFO report st;
               out = (case output_dir (ctx st1) of None \<Rightarrow> [] | Some d \<Rightarrow> d);
               log_text = ''report on '' @ [CHR 0x27] @ name @ [CHR 0x27, newline]
                  @ ''queries made on '' @ url @ '' | version = '' @ py_str version
                  @ '' '' @ [newline] @ report;
               data = [(''name'', PStr name), (''url'', PStr url), (''version'', version),
                       (''md_report'', PStr report)];
               csv_column = REPORT_COLUMN @ [''directory'', ''url'', ''name'', ''version''];
               rows = map (\<lambda>r. r ++ [''directory'' \<mapsto> PStr out, ''url'' \<mapsto> PStr url,
                                       ''name'' \<mapsto> PStr name, ''version'' \<mapsto> version]) res
           in (Inr (), st1\<lparr>written := written st1 @
                 [(path_join out ''report.log'', Text log_text),
                  (path_join out ''report.json'', JsonDump data),
                  (path_join out ''report.csv'', CsvTable csv_column rows)]\<rparr>)))"

text \<open>The truth value of an optional text: \<^verbatim>\<open>None\<close> and the empty text are false.\<close>

definition text_truthy :: "string option \<Rightarrow> bool" where
  "text_truthy v = (case v of None \<Rightarrow> False | Some s \<Rightarrow> s \<noteq> [])"

text \<open>
  \<^verbatim>\<open>run_all(ctx, url=None, name="geocoder-tester", regions=None)\<close>.  An argument left at
  \<^verbatim>\<open>None\<close> is \<open>None\<close> here; reading \<^verbatim>\<open>ctx.url\<close> without such a key in the configuration is
  an \<^verbatim>\<open>AttributeError\<close>.
\<close>

definition run_all ::
  "env \<Rightarrow> string option \<Rightarrow> string \<Rightarrow> string option \<Rightarrow> state \<Rightarrow> (exc + unit) \<times> state" where
  "run_all e url_arg name regions_arg st0 =
     (case init_output_dir e name st0 of
        (Inl x, st) \<Rightarrow> (Inl x, st)
      | (Inr out, st) \<Rightarrow>
          (case (if text_truthy url_arg then Inr url_arg
                 else case conf_url (ctx st) of
                        None \<Rightarrow> Inl AttributeError | Some v \<Rightarrow> Inr v) of
             Inl x \<Rightarrow> (Inl x, st)
           | Inr url_val \<Rightarrow>
               (let st1 = (if text_truthy regions_arg
                           then st\<lparr>ctx := (ctx st)
                                   \<lparr>regions := split_on CHR '','' (case regions_arg of
                                                                       None \<Rightarrow> [] | Some rs \<Rightarrow> rs)\<rparr>\<rparr>
                           else st)
                in case url_val of
                     None \<Rightarrow> (Inl (Exception ''no url provided''), st1)
                   | Some url \<Rightarrow>
                       if url = [] then (Inl (Exception ''no url provided''), st1)
                       else
                         (let st2 = log_msg INFO (''testing '' @ name @ '' on '' @ url) st1
                          in case get_version e url st2 of
                               (Inl x, st3) \<Rightarrow> (Inl x, st3)
                             | (Inr version, st3) \<Rightarrow>
                                 (let st4 = (if truthy version
                                             then log_msg INFO
                                                    (''testing version '' @ py_str version) st3
                                             else st3)
                                  in case run_each
                                            (\<lambda>(region, cat) s.
                                                run_pytest e url name region cat
                                                  (log_msg INFO
                                                     (''running tests on '' @ region @ '' / ''
                                                        @ repr_category e cat) s))
                                            (List.product (regions (ctx st4))
                                               (categories (ctx st4)))
                                            [] st4 of
                                       (Inl x, st5) \<Rightarrow> (Inl x, st5)
                                     | (Inr res, st5) \<Rightarrow>
                                         write_reports name url version res st5)))))"

section \<open>Auxiliary definitions\<close>

text \<open>One step of the inner loop of \<open>widen\<close>: lines 42 to 44 for one column.\<close>

definition widen1 :: "dict \<Rightarrow> string \<Rightarrow> widths \<Rightarrow> widths" where
  "widen1 d key lengths =
     (let i = length (py_str (case d key of None \<Rightarrow> PStr [] | Some v \<Rightarrow> v))
      in case lengths key of None \<Rightarrow> lengths
         | Some w \<Rightarrow> if w < i then lengths(key \<mapsto> i + 2) else lengths)"

text \<open>Every column that has a width is at least one character wide.\<close>

definition wide :: "widths \<Rightarrow> bool" where
  "wide L = (\<forall>key w. L key = Some w \<longrightarrow> 1 \<le> w)"

text \<open>
  A configuration without a URL (\<^verbatim>\<open>url: null\<close>), no run directory yet, in an empty
  working directory; and an environment whose status endpoint cannot be reached.
\<close>

definition no_url_state :: state where
  "no_url_state =
     \<lparr>ctx = \<lparr>output_dir = None, base_output_dir = ''results'', geocoder_sources = ''src'',
              additional_pytest_args = None, categories = [], regions = [],
              conf_url = Some None\<rparr>,
      dirs = {}, written = [], logged = []\<rparr>"

definition offline_env :: env where
  "offline_env =
     \<lparr>now = ''2020-01-01T00:00:00'', shell = (\<lambda>cmd. []),
      http_get = (\<lambda>u. Inl ConnectionError),
      repr_dict = (\<lambda>d. []), repr_category = (\<lambda>c. [])\<rparr>"

text \<open>
  The ratio in the words of the specification: the share of passed tests as a
  percentage, rounded to the nearest whole percent (a half to the even neighbour), and
  \<^verbatim>\<open>0%\<close> when there is no test.
\<close>

definition exact_percent :: "nat \<Rightarrow> nat \<Rightarrow> string" where
  "exact_percent p n =
     (if n = 0 then ''0%'' else dec (rne_div (100 * p) n) @ ''%'')"

text \<open>The match the backtracking matcher reports first, with what is left of the text.\<close>

definition first :: "re \<Rightarrow> string \<times> groups \<Rightarrow> (string \<times> groups) option" where
  "first r sg = (case runs r sg of [] \<Rightarrow> None | x # xs \<Rightarrow> Some x)"

text \<open>The pattern of the Summary Parser, read from its end.\<close>

definition seconds_tail :: re where
  "seconds_tail = Seq (Str '' seconds'') (Star Dot)"

definition time_tail :: re where
  "time_tail = Seq (Group ''time'' (Star Dot)) seconds_tail"

definition in_tail :: re where
  "in_tail = Seq (Str ''in '') time_tail"

definition filler_tail :: re where
  "filler_tail = Seq (Star Dot) in_tail"

definition passed_tail :: re where
  "passed_tail = Seq (Opt (Seq (Group ''success'' (Plus Digit)) (Str '' passed''))) filler_tail"

definition blank_tail :: re where
  "blank_tail = Seq (Str '' '') passed_tail"

definition comma_tail :: re where
  "comma_tail = Seq (Opt (One (Lit CHR '',''))) blank_tail"

definition failed_tail :: re where
  "failed_tail =
     Seq (Opt (Seq (Str '' '') (Seq (Group ''failed'' (Plus Digit)) (Str '' failed''))))
       comma_tail"

text \<open>A text of one digit or more, and groups whose counts are such texts.\<close>

definition digits_only :: "string \<Rightarrow> bool" where
  "digits_only v = (v \<noteq> [] \<and> list_all is_digit v)"

definition counts_ok :: "groups \<Rightarrow> bool" where
  "counts_ok g =
     ((case g ''failed'' of None \<Rightarrow> True | Some v \<Rightarrow> digits_only v)
      \<and> (case g ''success'' of None \<Rightarrow> True | Some v \<Rightarrow> digits_only v))"

text \<open>A pattern whose groups \<^verbatim>\<open>failed\<close> and \<^verbatim>\<open>success\<close> are \<^verbatim>\<open>\d+\<close>.\<close>

fun digit_groups :: "re \<Rightarrow> bool" where
  "digit_groups (Group n a) =
     (if n = ''failed'' \<or> n = ''success'' then a = Plus Digit else digit_groups a)"
| "digit_groups (Seq a b) = (digit_groups a \<and> digit_groups b)"
| "digit_groups (Opt a) = digit_groups a"
| "digit_groups r = True"

text \<open>The summary line of claim C1: the banner, the two counts, the seconds, the banner.\<close>

definition summary_line :: "nat \<Rightarrow> nat \<Rightarrow> nat \<Rightarrow> string \<Rightarrow> nat \<Rightarrow> string" where
  "summary_line m f p t n =
     replicate m CHR ''='' @ '' '' @ dec f @ '' failed, '' @ dec p @ '' passed in '' @ t
       @ '' seconds '' @ replicate n CHR ''=''"

text \<open>
  A text begins with a count clause when it begins with one digit or more and the word
  follows them, as \<^verbatim>\<open>3 failed\<close> does for the word \<^verbatim>\<open> failed\<close>.
\<close>

definition count_clause :: "string \<Rightarrow> string \<Rightarrow> bool" where
  "count_clause word s = (takeWhile is_digit s \<noteq> [] \<and> starts_with word (dropWhile is_digit s))"

text \<open>
  The summary line of claim C9: the banner, a blank, any text, \<^verbatim>\<open>in\<close>, the seconds, the
  banner.
\<close>

definition no_counts_line :: "nat \<Rightarrow> string \<Rightarrow> string \<Rightarrow> nat \<Rightarrow> string" where
  "no_counts_line m w t n =
     replicate m CHR ''='' @ '' '' @ w @ ''in '' @ t @ '' seconds '' @ replicate n CHR ''=''"

text \<open>The characters of a decimal float numeral.\<close>

definition numeral_char :: "char \<Rightarrow> bool" where
  "numeral_char c = (is_digit c \<or> c \<in> set ''.eE+-'')"

text \<open>Lines 96 and 101 together: the ratio of a count of passed tests, as text.\<close>

definition ratio_text :: "int \<Rightarrow> int \<Rightarrow> string" where
  "ratio_text s n =
     (if n = 0 then ''0%''
      else case true_div s n of Inl e \<Rightarrow> [] | Inr x \<Rightarrow> format_pct0 x)"

section \<open>Evaluation of the model on numerals and literal text\<close>

lemma bits_eval:
  "bits 0 = 0" "bits 1 = 1" "bits (Suc 0) = 1"
  "bits (numeral (Num.Bit0 n)) = Suc (bits (numeral n))"
  "bits (numeral (Num.Bit1 n)) = Suc (bits (numeral n))"
proof -
  show "bits 0 = 0" by (simp add: bits.simps)
  show "bits 1 = 1" by (simp add: bits.simps)
  show "bits (Suc 0) = 1" by (simp add: bits.simps)
  have "numeral (Num.Bit0 n) div (2::nat) = numeral n" by simp
  then show "bits (numeral (Num.Bit0 n)) = Suc (bits (numeral n))"
    by (subst bits.simps) simp
  have "numeral (Num.Bit1 n) div (2::nat) = numeral n" by simp
  then show "bits (numeral (Num.Bit1 n)) = Suc (bits (numeral n))"
    by (subst bits.simps) simp
qed

lemma dec_eval:
  "dec 0 = ''0''" "dec 1 = ''1''" "dec (Suc 0) = ''1''"
  "dec (numeral k) = (if numeral k < (10::nat) then [digit_chr (numeral k)]
                      else dec (numeral k div 10) @ [digit_chr (numeral k mod 10)])"
proof -
  show "dec 0 = ''0''" by (simp add: dec.simps digit_chr_def)
  show "dec 1 = ''1''" by (simp add: dec.simps digit_chr_def)
  show "dec (Suc 0) = ''1''" by (simp add: dec.simps digit_chr_def)
  show "dec (numeral k) = (if numeral k < (10::nat) then [digit_chr (numeral k)]
                      else dec (numeral k div 10) @ [digit_chr (numeral k mod 10)])"
    by (rule dec.simps)
qed

lemmas regex_eval = re_match_def RESULT_PATTERN_def RESULT_LINE_PATTERN_def Str_def newline_def
  is_digit_def is_banner_def

lemmas number_eval = count_of_def safe_cast_def py_int_def py_float_def split_sign_def strip_def
  is_space_def parse_decimal_def digits_val_def digit_val_def round64_def floor_log2_def
  bits_eval rne_div_def to_lower_def true_div_def seconds_duration_def str_duration_def
  timedelta_of_us_def str_timedelta_def int_part_def frac_part_def zero_pad_def dec_eval
  digit_chr_def str_int_def bind_def Let_def

lemmas table_eval = pretty_print_def plain_key_def is_digit_def init_lengths_def widen_def
  fill_def width_def center_def cell_def

section \<open>Report Renderer: the shape of the table\<close>

text \<open>
  The widths only grow while the records are measured, and every value measured fits
  its column afterwards.
\<close>


lemma init_lengths_aux:
  "fold (\<lambda>key lengths. lengths(key \<mapsto> length key + 2)) keys L k =
     (if k \<in> set keys then Some (length k + 2) else L k)"
  by (induction keys arbitrary: L) auto

lemma init_lengths_at: "init_lengths keys k = (if k \<in> set keys then Some (length k + 2) else None)"
  unfolding init_lengths_def init_lengths_aux by simp


lemma widen_fold: "widen keys d L = fold (widen1 d) keys L"
  by (simp add: widen_def widen1_def[abs_def])

lemma widen1_mono: "L k = Some w \<Longrightarrow> \<exists>w'. widen1 d key L k = Some w' \<and> w \<le> w'"
  by (auto simp: widen1_def Let_def split: option.splits)

lemma widen1_None: "L k = None \<Longrightarrow> widen1 d key L k = None"
  by (auto simp: widen1_def Let_def split: option.splits)

lemma fold_widen1_mono: "L k = Some w \<Longrightarrow> \<exists>w'. fold (widen1 d) keys L k = Some w' \<and> w \<le> w'"
proof (induction keys arbitrary: L w)
  case Nil
  then show ?case by simp
next
  case (Cons a keys)
  from widen1_mono[of L k w d a, OF Cons.prems] obtain w1 where
    w1: "widen1 d a L k = Some w1" "w \<le> w1" by blast
  from Cons.IH[of "widen1 d a L" w1, OF w1(1)] obtain w' where "fold (widen1 d) keys (widen1 d a L) k = Some w'" "w1 \<le> w'"
    by blast
  with w1 show ?case by auto
qed

lemma widen_mono: "L k = Some w \<Longrightarrow> \<exists>w'. widen keys d L k = Some w' \<and> w \<le> w'"
  by (simp add: widen_fold fold_widen1_mono)

lemma fold_widen_mono: "L k = Some w \<Longrightarrow> \<exists>w'. fold (widen keys) dicts L k = Some w' \<and> w \<le> w'"
proof (induction dicts arbitrary: L w)
  case Nil
  then show ?case by simp
next
  case (Cons d dicts)
  from widen_mono[of L k w keys d, OF Cons.prems] obtain w1 where
    w1: "widen keys d L k = Some w1" "w \<le> w1" by blast
  from Cons.IH[of "widen keys d L" w1, OF w1(1)] obtain w' where "fold (widen keys) dicts (widen keys d L) k = Some w'" "w1 \<le> w'"
    by blast
  with w1 show ?case by auto
qed

lemma widen1_fits:
  "L key \<noteq> None \<Longrightarrow>
     \<exists>w. widen1 d key L key = Some w \<and> length (py_str (case d key of None \<Rightarrow> PStr [] | Some v \<Rightarrow> v)) \<le> w"
  by (auto simp: widen1_def Let_def split: option.splits)

lemma fold_widen1_fits:
  "k \<in> set keys \<Longrightarrow> \<forall>key\<in>set keys. L key \<noteq> None \<Longrightarrow>
     \<exists>w. fold (widen1 d) keys L k = Some w \<and> length (py_str (case d k of None \<Rightarrow> PStr [] | Some v \<Rightarrow> v)) \<le> w"
proof (induction keys arbitrary: L)
  case Nil
  then show ?case by simp
next
  case (Cons a keys)
  have dom: "\<forall>key\<in>set keys. widen1 d a L key \<noteq> None"
  proof
    fix key assume "key \<in> set keys"
    then obtain w where "L key = Some w" using Cons.prems(2) by auto
    from widen1_mono[of L key w d a, OF this] show "widen1 d a L key \<noteq> None" by auto
  qed
  show ?case
  proof (cases "k \<in> set keys")
    case True
    from Cons.IH[OF True dom] show ?thesis by simp
  next
    case False
    then have ka: "k = a" using Cons.prems(1) by simp
    have "L a \<noteq> None" using Cons.prems(2) by simp
    from widen1_fits[of L a d, OF this] obtain w where
      w: "widen1 d a L a = Some w" "length (py_str (case d a of None \<Rightarrow> PStr [] | Some v \<Rightarrow> v)) \<le> w"
      by blast
    from fold_widen1_mono[of "widen1 d a L" a w d keys, OF w(1)] obtain w' where
      "fold (widen1 d) keys (widen1 d a L) a = Some w'" "w \<le> w'" by blast
    with w ka show ?thesis by auto
  qed
qed

lemma fold_widen_fits:
  "d \<in> set dicts \<Longrightarrow> k \<in> set keys \<Longrightarrow> \<forall>key\<in>set keys. L key \<noteq> None \<Longrightarrow>
     \<exists>w. fold (widen keys) dicts L k = Some w \<and> length (py_str (case d k of None \<Rightarrow> PStr [] | Some v \<Rightarrow> v)) \<le> w"
proof (induction dicts arbitrary: L)
  case Nil
  then show ?case by simp
next
  case (Cons a dicts)
  have dom: "\<forall>key\<in>set keys. widen keys a L key \<noteq> None"
  proof
    fix key assume "key \<in> set keys"
    then obtain w where "L key = Some w" using Cons.prems(3) by auto
    from widen_mono[of L key w keys a, OF this] show "widen keys a L key \<noteq> None" by auto
  qed
  show ?case
  proof (cases "d \<in> set dicts")
    case True
    from Cons.IH[OF True Cons.prems(2) dom] show ?thesis by simp
  next
    case False
    then have da: "d = a" using Cons.prems(1) by simp
    from fold_widen1_fits[OF Cons.prems(2) Cons.prems(3), of a] obtain w where
      w: "widen keys a L k = Some w" "length (py_str (case a k of None \<Rightarrow> PStr [] | Some v \<Rightarrow> v)) \<le> w"
      by (auto simp: widen_fold)
    from fold_widen_mono[of "widen keys a L" k w keys dicts, OF w(1)] obtain w' where
      "fold (widen keys) dicts (widen keys a L) k = Some w'" "w \<le> w'" by blast
    with w da show ?thesis by auto
  qed
qed

lemma cell_length: "length (cell d k) \<le> max 1 (length (py_str (case d k of None \<Rightarrow> PStr [] | Some v \<Rightarrow> v)))"
  by (auto simp: cell_def split: option.splits)

lemma length_center: "length (center w s) = max w (length s)"
  by (auto simp: center_def Let_def)

lemma center_full: "center w (replicate w c) = replicate w c"
  by (simp add: center_def)

text \<open>
  Claim C7, as amended.  Rendering no record returns no line.  Rendering at least one
  record under plain column names returns an empty first line, then the header row of
  the column names, then the separator row of dashes, then one row per record in the
  order of the records; every column is at least as wide as its name and two more
  characters, and every cell of a column has exactly the width of the column.
\<close>

theorem pretty_print_shape:
  "pretty_print [] keys = Inr [] \<and>
   (dicts \<noteq> [] \<and> list_all plain_key keys \<longrightarrow>
     (\<exists>w. (\<forall>k\<in>set keys. length k + 2 \<le> w k
               \<and> (\<forall>d\<in>set dicts. length (center (w k) (cell d k)) = w k))
          \<and> pretty_print dicts keys =
              Inr ([] # join ''|'' (map (\<lambda>k. center (w k) k) keys)
                      # join ''|'' (map (\<lambda>k. replicate (w k) CHR ''-'') keys)
                      # map (\<lambda>d. join ''|'' (map (\<lambda>k. center (w k) (cell d k)) keys)) dicts)))"
proof (intro conjI impI)
  show "pretty_print [] keys = Inr []" by (simp add: pretty_print_def)
next
  assume a: "dicts \<noteq> [] \<and> list_all plain_key keys"
  define L where "L = fold (widen keys) dicts (init_lengths keys)"
  have dom: "\<forall>key\<in>set keys. init_lengths keys key \<noteq> None"
    by (simp add: init_lengths_at)
  have wide: "length k + 2 \<le> width L k" if "k \<in> set keys" for k
  proof -
    have "init_lengths keys k = Some (length k + 2)" using that by (simp add: init_lengths_at)
    from fold_widen_mono[of "init_lengths keys" k "length k + 2" keys dicts, OF this] show ?thesis
      by (auto simp: L_def width_def)
  qed
  have fits: "length (center (width L k) (cell d k)) = width L k"
    if "k \<in> set keys" "d \<in> set dicts" for k d
  proof -
    from fold_widen_fits[OF that(2) that(1) dom] obtain w where
      w: "L k = Some w" "length (py_str (case d k of None \<Rightarrow> PStr [] | Some v \<Rightarrow> v)) \<le> w"
      by (auto simp: L_def)
    have "length (cell d k) \<le> max 1 w" using cell_length[of d k] w(2) by simp
    moreover have "2 \<le> width L k" using wide[OF that(1)] by simp
    ultimately show ?thesis using w(1) by (simp add: length_center width_def)
  qed
  have "pretty_print dicts keys =
          Inr ([] # join ''|'' (map (\<lambda>k. center (width L k) k) keys)
                  # join ''|'' (map (\<lambda>k. replicate (width L k) CHR ''-'') keys)
                  # map (\<lambda>d. join ''|'' (map (\<lambda>k. center (width L k) (cell d k)) keys)) dicts)"
    using a by (simp add: pretty_print_def L_def[symmetric] fill_def center_full)
  with wide fits show "\<exists>w. (\<forall>k\<in>set keys. length k + 2 \<le> w k
               \<and> (\<forall>d\<in>set dicts. length (center (w k) (cell d k)) = w k))
          \<and> pretty_print dicts keys =
              Inr ([] # join ''|'' (map (\<lambda>k. center (w k) k) keys)
                      # join ''|'' (map (\<lambda>k. replicate (w k) CHR ''-'') keys)
                      # map (\<lambda>d. join ''|'' (map (\<lambda>k. center (w k) (cell d k)) keys)) dicts)"
    by (intro exI[of _ "width L"]) simp
qed

text \<open>
  Claim C7 as stated fails: the lines returned for one record do not start with the
  header row.  The first line is the empty text, so four lines are returned for one
  record, not three.
\<close>

theorem pretty_print_counterexample:
  "pretty_print [[''failed'' \<mapsto> PInt 1]] [''failed'']
     = Inr ['''', '' failed '', ''--------'', ''   1    '']
   \<and> pretty_print [[''failed'' \<mapsto> PInt 1]] [''failed'']
     \<noteq> Inr ['' failed '', ''--------'', ''   1    '']"
  by (simp add: table_eval str_int_def dec_eval)

text \<open>The amended claim C7 at the same record: the column is eight characters wide.\<close>

theorem pretty_print_witness:
  "\<exists>w. pretty_print [[''failed'' \<mapsto> PInt 1]] [''failed''] =
          Inr ([] # join ''|'' (map (\<lambda>k. center (w k) k) [''failed''])
                  # join ''|'' (map (\<lambda>k. replicate (w k) CHR ''-'') [''failed''])
                  # map (\<lambda>d. join ''|'' (map (\<lambda>k. center (w k) (cell d k)) [''failed'']))
                      [[''failed'' \<mapsto> PInt 1]])
        \<and> 8 \<le> w ''failed''"
proof -
  have "list_all plain_key [''failed'']" by (simp add: plain_key_def is_digit_def)
  with pretty_print_shape[of "[''failed'']" "[[''failed'' \<mapsto> PInt 1]]"]
  show ?thesis by auto
qed


section \<open>Report Renderer: values that count as false\<close>

lemma wide_init: "wide (init_lengths keys)"
  by (auto simp: wide_def init_lengths_at split: if_splits)

lemma wide_widen1: "wide L \<Longrightarrow> wide (widen1 d key L)"
  by (auto simp: wide_def widen1_def Let_def split: option.splits if_splits)

lemma wide_fold_widen1: "wide L \<Longrightarrow> wide (fold (widen1 d) keys L)"
  by (induction keys arbitrary: L) (auto simp: wide_widen1)

lemma wide_widen: "wide L \<Longrightarrow> wide (widen keys d L)"
  by (simp add: widen_fold wide_fold_widen1)

lemma wide_fold_widen: "wide L \<Longrightarrow> wide (fold (widen keys) dicts L)"
  by (induction dicts arbitrary: L) (auto simp: wide_widen)

lemma cell_falsy: "\<not> truthy v \<Longrightarrow> cell (d(k \<mapsto> v)) = cell (d(k := None))"
  by (auto simp: cell_def fun_eq_iff)

lemma widen1_falsy:
  assumes "wide L" "v = PInt 0 \<or> v = PStr []"
  shows "widen1 (d(k \<mapsto> v)) key L = widen1 (d(k := None)) key L"
proof (cases "L key")
  case None
  then show ?thesis by (simp add: widen1_def)
next
  case (Some w)
  then have "1 \<le> w" using assms(1) by (auto simp: wide_def)
  then show ?thesis using Some assms(2)
    by (auto simp: widen1_def Let_def str_int_def dec.simps)
qed

lemma fold_widen1_falsy:
  "wide L \<Longrightarrow> v = PInt 0 \<or> v = PStr [] \<Longrightarrow>
     fold (widen1 (d(k \<mapsto> v))) keys L = fold (widen1 (d(k := None))) keys L"
proof (induction keys arbitrary: L)
  case Nil
  then show ?case by simp
next
  case (Cons a keys)
  have w: "wide (widen1 (d(k := None)) a L)" using Cons.prems(1) by (rule wide_widen1)
  have e: "widen1 (d(k \<mapsto> v)) a L = widen1 (d(k := None)) a L"
    using Cons.prems by (rule widen1_falsy)
  have "fold (widen1 (d(k \<mapsto> v))) (a # keys) L
          = fold (widen1 (d(k \<mapsto> v))) keys (widen1 (d(k := None)) a L)"
    by (simp only: fold_simps e)
  also have "\<dots> = fold (widen1 (d(k := None))) keys (widen1 (d(k := None)) a L)"
    using w Cons.prems(2) by (rule Cons.IH)
  finally show ?case by (simp only: fold_simps)
qed

text \<open>
  Claim C10.  A field whose value is present but counts as false (the integer 0, the
  empty text, \<^verbatim>\<open>None\<close>) is printed as \<^verbatim>\<open>_\<close>: whatever the column widths, the row of
  the record is the row it would have without the field.  For the integer 0 (and the
  empty text) the whole table, widths included, is the table of the records without
  the field, so \<^verbatim>\<open>failed = 0\<close> cannot be told from a missing \<^verbatim>\<open>failed\<close>.
\<close>

theorem falsy_rendered_as_missing:
  "(\<not> truthy v \<longrightarrow> fill L keys (cell (d(k \<mapsto> v))) = fill L keys (cell (d(k := None))))
   \<and> (v = PInt 0 \<or> v = PStr [] \<longrightarrow>
        pretty_print (before @ d(k \<mapsto> v) # after) keys
          = pretty_print (before @ d(k := None) # after) keys)"
proof (intro conjI impI)
  assume "\<not> truthy v"
  then show "fill L keys (cell (d(k \<mapsto> v))) = fill L keys (cell (d(k := None)))"
    by (simp add: cell_falsy)
next
  assume v: "v = PInt 0 \<or> v = PStr []"
  then have f: "\<not> truthy v" by auto
  have w: "wide (fold (widen keys) before (init_lengths keys))"
    by (intro wide_fold_widen wide_init)
  have "widen keys (d(k \<mapsto> v)) (fold (widen keys) before (init_lengths keys))
        = widen keys (d(k := None)) (fold (widen keys) before (init_lengths keys))"
    using fold_widen1_falsy[OF w v] by (simp add: widen_fold)
  then show "pretty_print (before @ d(k \<mapsto> v) # after) keys
          = pretty_print (before @ d(k := None) # after) keys"
    by (simp add: pretty_print_def cell_falsy[OF f])
qed

text \<open>Claim C10 at a record with no failed test.\<close>

theorem falsy_rendered_as_missing_witness:
  "pretty_print [[''region'' \<mapsto> PStr ''fr'', ''failed'' \<mapsto> PInt 0]] [''region'', ''failed'']
     = pretty_print [[''region'' \<mapsto> PStr ''fr'']] [''region'', ''failed'']
   \<and> pretty_print [[''region'' \<mapsto> PStr ''fr'', ''failed'' \<mapsto> PInt 0]] [''region'', ''failed'']
     = Inr ['''', '' region | failed '', ''--------|--------'', ''   fr   |   _    '']"
proof -
  have "pretty_print ([] @ [''region'' \<mapsto> PStr ''fr'', ''failed'' \<mapsto> PInt 0] # []) [''region'', ''failed'']
     = pretty_print ([] @ ([''region'' \<mapsto> PStr ''fr''](''failed'' := None)) # []) [''region'', ''failed'']"
    using falsy_rendered_as_missing[of "PInt 0" L "[''region'', ''failed'']" "[''region'' \<mapsto> PStr ''fr'']" "''failed''" "[]" "[]"]
    by simp
  moreover have "[''region'' \<mapsto> PStr ''fr''](''failed'' := None) = [''region'' \<mapsto> PStr ''fr'']"
    by (auto simp: fun_eq_iff)
  moreover have "pretty_print [[''region'' \<mapsto> PStr ''fr'']] [''region'', ''failed'']
     = Inr ['''', '' region | failed '', ''--------|--------'', ''   fr   |   _    '']"
    by (simp add: table_eval)
  ultimately show ?thesis by simp
qed


section \<open>Run Orchestrator: selectors\<close>

lemma map_filter_append:
  "List.map_filter f (xs @ ys) = List.map_filter f xs @ List.map_filter f ys"
  by (simp add: List.map_filter_def)

text \<open>
  Claim C8, as amended.  For a category marked as catching the remaining tests the
  selector is the conjunction, joined with \<^verbatim>\<open> and \<close>, of \<^verbatim>\<open>not S\<close> for the selector \<open>S\<close> of
  every category of the configuration that has one, in the order of the list: those
  of the other categories and, when the marked category has a selector itself, its own
  as well.  For a category not so marked, its own selector is used as it is.
\<close>

theorem remaining_selector_all_selectors:
  "(remaining_tests cat \<and> categories c = before @ cat # after \<longrightarrow>
      category_selector c cat =
        Inr (join '' and '' (map (\<lambda>s. ''not '' @ s)
              (List.map_filter selector before
                @ (case selector cat of None \<Rightarrow> [] | Some s \<Rightarrow> [s])
                @ List.map_filter selector after))))
   \<and> (\<not> remaining_tests cat \<and> selector cat = Some s \<longrightarrow> category_selector c cat = Inr s)"
  by (auto simp: category_selector_def get_remaining_tests_def map_filter_append
        List.map_filter_def split: option.splits)

text \<open>
  Claim C8 on the categories \<^verbatim>\<open>[{selector: a}, {selector: b}, {remaining_tests: true}]\<close>:
  the selector of the third is \<^verbatim>\<open>not a and not b\<close>.
\<close>

theorem remaining_selector_witness:
  "category_selector
     \<lparr>output_dir = None, base_output_dir = ''results'', geocoder_sources = ''src'',
      additional_pytest_args = None,
      categories = [\<lparr>cat_name = Some ''x'', selector = Some ''a'', remaining_tests = False\<rparr>,
                    \<lparr>cat_name = Some ''y'', selector = Some ''b'', remaining_tests = False\<rparr>,
                    \<lparr>cat_name = Some ''z'', selector = None, remaining_tests = True\<rparr>],
      regions = [], conf_url = None\<rparr>
     \<lparr>cat_name = Some ''z'', selector = None, remaining_tests = True\<rparr>
   = Inr ''not a and not b''"
  using remaining_selector_all_selectors
    [of "\<lparr>cat_name = Some ''z'', selector = None, remaining_tests = True\<rparr>"
        "\<lparr>output_dir = None, base_output_dir = ''results'', geocoder_sources = ''src'',
          additional_pytest_args = None,
          categories = [\<lparr>cat_name = Some ''x'', selector = Some ''a'', remaining_tests = False\<rparr>,
                        \<lparr>cat_name = Some ''y'', selector = Some ''b'', remaining_tests = False\<rparr>,
                        \<lparr>cat_name = Some ''z'', selector = None, remaining_tests = True\<rparr>],
          regions = [], conf_url = None\<rparr>"
        "[\<lparr>cat_name = Some ''x'', selector = Some ''a'', remaining_tests = False\<rparr>,
          \<lparr>cat_name = Some ''y'', selector = Some ''b'', remaining_tests = False\<rparr>]"
        "[]"]
  by (simp add: List.map_filter_def)

text \<open>
  Claim C8 as stated fails when the marked category has a selector of its own: the
  code negates that one too, where the claim takes the selectors of the other
  categories only.
\<close>

theorem remaining_selector_counterexample:
  "category_selector
     \<lparr>output_dir = None, base_output_dir = ''results'', geocoder_sources = ''src'',
      additional_pytest_args = None,
      categories = [\<lparr>cat_name = Some ''x'', selector = Some ''a'', remaining_tests = False\<rparr>,
                    \<lparr>cat_name = Some ''z'', selector = Some ''b'', remaining_tests = True\<rparr>],
      regions = [], conf_url = None\<rparr>
     \<lparr>cat_name = Some ''z'', selector = Some ''b'', remaining_tests = True\<rparr>
   = Inr ''not a and not b''
   \<and> join '' and '' (map (\<lambda>s. ''not '' @ s)
         (List.map_filter selector
            [\<lparr>cat_name = Some ''x'', selector = Some ''a'', remaining_tests = False\<rparr>]))
     = ''not a''"
  by (simp add: category_selector_def get_remaining_tests_def List.map_filter_def)

section \<open>Run Orchestrator: the version lookup\<close>

text \<open>
  Claim C5 fails on the code.  When the status endpoint cannot be reached,
  \<^verbatim>\<open>requests.get\<close> raises before the \<^verbatim>\<open>try\<close> block is entered: the exception leaves
  \<^verbatim>\<open>_get_version\<close> and nothing is logged.  A failure inside the block (here an HTTP
  error status) is caught as the claim says: a warning is logged and the version is
  \<^verbatim>\<open>None\<close>.
\<close>

theorem get_version_unreachable_escapes:
  "get_version offline_env ''http://mimir:5000/autocomplete'' st = (Inl ConnectionError, st)
   \<and> get_version
        (offline_env\<lparr>http_get := (\<lambda>u. Inr \<lparr>http_error = True, payload = NotJson\<rparr>)\<rparr>)
        ''http://mimir:5000/autocomplete'' st
      = (Inr PNone, st\<lparr>logged := logged st @ [(WARNING, ''Failed to fetch geocoder version'')]\<rparr>)"
  by (simp add: get_version_def starts_with_def offline_env_def log_msg_def)

section \<open>Run Orchestrator: a run without URL\<close>

lemma init_output_dir_effect:
  "\<exists>r st'. init_output_dir e name st = (r, st') \<and> logged st' = logged st
      \<and> written st' = written st \<and> conf_url (ctx st') = conf_url (ctx st)
      \<and> dirs st' = (case output_dir (ctx st) of
                      None \<Rightarrow> insert (base_output_dir (ctx st) @ ''/'' @ name @ ''_'' @ now e)
                               (dirs st)
                    | Some d \<Rightarrow> dirs st)"
  by (auto simp: init_output_dir_def makedirs_def Let_def split: option.splits)

text \<open>
  Claim C6, as amended.  With no URL given (the argument \<^verbatim>\<open>None\<close> or empty) and none
  configured (no key \<^verbatim>\<open>url\<close>, or a value that counts as false), the full run raises
  before it logs anything and before it writes any file, hence before the version
  lookup, the tests and the reports; but the run directory has been initialised by
  then: when the context has no \<^verbatim>\<open>output_dir\<close> yet, the directory
  \<^verbatim>\<open><base_output_dir>/<name>_<timestamp>\<close> is among the directories afterwards.
\<close>

theorem run_all_no_url_raises_after_init:
  assumes "\<not> text_truthy url_arg"
    and "case conf_url (ctx st) of None \<Rightarrow> True | Some v \<Rightarrow> \<not> text_truthy v"
  shows "\<exists>x st'. run_all e url_arg name regions_arg st = (Inl x, st')
            \<and> logged st' = logged st \<and> written st' = written st
            \<and> dirs st' = (case output_dir (ctx st) of
                 None \<Rightarrow> insert (base_output_dir (ctx st) @ ''/'' @ name @ ''_'' @ now e) (dirs st)
               | Some d \<Rightarrow> dirs st)"
proof -
  obtain r st1 where i: "init_output_dir e name st = (r, st1)"
    and k: "logged st1 = logged st" "written st1 = written st"
      "conf_url (ctx st1) = conf_url (ctx st)"
      "dirs st1 = (case output_dir (ctx st) of
                 None \<Rightarrow> insert (base_output_dir (ctx st) @ ''/'' @ name @ ''_'' @ now e) (dirs st)
               | Some d \<Rightarrow> dirs st)"
    using init_output_dir_effect[of e name st] by blast
  show ?thesis
  proof (cases r)
    case (Inl x)
    then show ?thesis using i k by (simp add: run_all_def)
  next
    case (Inr out)
    then show ?thesis using i k assms
      by (auto simp: run_all_def Let_def text_truthy_def split: option.splits)
  qed
qed

text \<open>
  Claim C6 as stated fails: in an empty working directory the run without URL raises
  \<^verbatim>\<open>no url provided\<close> only after it has created its output directory and recorded it
  in the context.
\<close>

theorem run_all_no_url_counterexample:
  "run_all offline_env None ''geocoder-tester'' None no_url_state
   = (Inl (Exception ''no url provided''),
      no_url_state\<lparr>dirs := {''results/geocoder-tester_2020-01-01T00:00:00''},
         ctx := (ctx no_url_state)
                  \<lparr>output_dir := Some ''results/geocoder-tester_2020-01-01T00:00:00''\<rparr>\<rparr>)
   \<and> dirs (snd (run_all offline_env None ''geocoder-tester'' None no_url_state))
       \<noteq> dirs no_url_state"
  by (simp add: run_all_def init_output_dir_def makedirs_def no_url_state_def offline_env_def
        text_truthy_def Let_def)

text \<open>The amended claim C6 in that run: nothing logged, nothing written, one directory.\<close>

theorem run_all_no_url_witness:
  "\<exists>x st'. run_all offline_env None ''geocoder-tester'' None no_url_state = (Inl x, st')
            \<and> logged st' = [] \<and> written st' = []
            \<and> dirs st' = {''results/geocoder-tester_2020-01-01T00:00:00''}"
  using run_all_no_url_raises_after_init
          [of None no_url_state offline_env "''geocoder-tester''" None]
  by (simp add: no_url_state_def offline_env_def text_truthy_def)

section \<open>Result Extractor\<close>


lemma scan_lines_skip:
  "\<forall>x\<in>set xs. \<not> is_banner x \<Longrightarrow> scan_lines res (xs @ ys) = scan_lines res ys"
  by (induction xs) auto

text \<open>
  Claim C2.  The lines of the captured output are scanned from the last one backward.
  When \<open>l\<close> is a banner and no line after it is one, \<open>l\<close> is the line logged and
  parsed, what the parser returns is merged into the record of region and category
  (an exception of the parser goes through), and the lines before \<open>l\<close>, banners or
  not, have no part in the result.  When no line is a banner the record of region and
  category is returned as it is, and nothing is logged.
\<close>

theorem get_results_last_banner:
  "(split_on newline pytest_logs = before @ l # after \<and> is_banner l
      \<and> (\<forall>x\<in>set after. \<not> is_banner x) \<longrightarrow>
      get_results region category pytest_logs =
        ((INFO, l) # fst (parse_log_line l),
         bind (snd (parse_log_line l))
           (\<lambda>d. Inr ([''region'' \<mapsto> PStr region, ''category'' \<mapsto> PStr category] ++ d))))
   \<and> ((\<forall>x\<in>set (split_on newline pytest_logs). \<not> is_banner x) \<longrightarrow>
      get_results region category pytest_logs =
        ([], Inr [''region'' \<mapsto> PStr region, ''category'' \<mapsto> PStr category]))"
proof (intro conjI impI)
  assume a: "split_on newline pytest_logs = before @ l # after \<and> is_banner l
      \<and> (\<forall>x\<in>set after. \<not> is_banner x)"
  then have "rev (split_on newline pytest_logs) = rev after @ l # rev before" by simp
  moreover have "\<forall>x\<in>set (rev after). \<not> is_banner x" using a by simp
  ultimately show "get_results region category pytest_logs =
        ((INFO, l) # fst (parse_log_line l),
         bind (snd (parse_log_line l))
           (\<lambda>d. Inr ([''region'' \<mapsto> PStr region, ''category'' \<mapsto> PStr category] ++ d)))"
    using a by (simp add: get_results_def scan_lines_skip split_beta)
next
  assume "\<forall>x\<in>set (split_on newline pytest_logs). \<not> is_banner x"
  then have "\<forall>x\<in>set (rev (split_on newline pytest_logs)). \<not> is_banner x" by simp
  from scan_lines_skip[OF this, of _ "[]"]
  show "get_results region category pytest_logs =
        ([], Inr [''region'' \<mapsto> PStr region, ''category'' \<mapsto> PStr category])"
    by (simp add: get_results_def)
qed

text \<open>
  Claim C2 on an output with two banners: the earlier one, which the parser would
  reject, is never looked at.
\<close>

theorem get_results_last_banner_witness:
  "get_results ''fr'' ''poi''
     (''===== test session starts ====='' @ [newline] @ ''collected 2 items'' @ [newline]
        @ ''===== 1 failed, 1 passed in 1 seconds ====='' @ [newline])
   = ([(INFO, ''===== 1 failed, 1 passed in 1 seconds ====='')],
      Inr [''region'' \<mapsto> PStr ''fr'', ''category'' \<mapsto> PStr ''poi'',
           ''failed'' \<mapsto> PInt 1, ''total'' \<mapsto> PInt 2,
           ''duration'' \<mapsto> PStr ''0:00:01'', ''ratio'' \<mapsto> PStr ''50%''])"
proof -
  let ?l = "''===== 1 failed, 1 passed in 1 seconds =====''"
  let ?text = "''===== test session starts ====='' @ [newline] @ ''collected 2 items''
        @ [newline] @ ?l @ [newline]"
  have s: "split_on newline ?text
             = [''===== test session starts ====='', ''collected 2 items''] @ ?l # [[]]"
    by (simp add: newline_def)
  have b: "is_banner ?l" by (simp add: regex_eval)
  have n: "\<forall>x\<in>set [[]]. \<not> is_banner x" by (simp add: regex_eval)
  have p: "parse_log_line ?l
             = ([], Inr [''failed'' \<mapsto> PInt 1, ''total'' \<mapsto> PInt 2,
                         ''duration'' \<mapsto> PStr ''0:00:01'', ''ratio'' \<mapsto> PStr ''50%''])"
    by (simp add: parse_log_line_def regex_eval number_eval)
  from get_results_last_banner[of ?text "[''===== test session starts ====='', ''collected 2 items'']"
        ?l "[[]]" "''fr''" "''poi''"] s b n
  have "get_results ''fr'' ''poi'' ?text =
        ((INFO, ?l) # fst (parse_log_line ?l),
         bind (snd (parse_log_line ?l))
           (\<lambda>d. Inr ([''region'' \<mapsto> PStr ''fr'', ''category'' \<mapsto> PStr ''poi''] ++ d)))"
    by blast
  then show ?thesis by (simp add: p bind_def)
qed

section \<open>The matcher\<close>

lemma RESULT_PATTERN_tails:
  "RESULT_PATTERN = Seq (Str ''=='') (Seq (Plus (Lit CHR ''='')) failed_tail)"
  by (simp add: RESULT_PATTERN_def failed_tail_def comma_tail_def blank_tail_def passed_tail_def
        filler_tail_def in_tail_def time_tail_def seconds_tail_def)

lemma re_match_first: "re_match r line = map_option snd (first r (line, Map.empty))"
  by (simp add: re_match_def first_def split: list.splits)

lemma runs_Str:
  "runs (Str w) (s, g) = (if starts_with w s then [(drop (length w) s, g)] else [])"
proof (induction w arbitrary: s)
  case Nil
  then show ?case by (simp add: Str_def starts_with_def)
next
  case (Cons c w)
  have "runs (Str (c # w)) (s, g) = concat (map (runs (Str w)) (runs (One (Lit c)) (s, g)))"
    by (simp add: Str_def)
  then show ?case using Cons.IH
    by (cases s) (auto simp: starts_with_def)
qed

lemma runs_Seq_Str:
  "runs (Seq (Str w) b) (s, g) = (if starts_with w s then runs b (drop (length w) s, g) else [])"
  by (simp add: runs_Str)

lemma first_Seq_Str:
  "first (Seq (Str w) b) (w @ s, g) = first b (s, g)"
  by (simp add: first_def runs_Str starts_with_def)

lemma first_Seq_hd:
  "runs a sg = x # xs \<Longrightarrow> first b x = Some z \<Longrightarrow> first (Seq a b) sg = Some z"
  by (auto simp: first_def split: list.splits)

lemma concat_map_skip:
  "\<forall>y\<in>set pre. F y = [] \<Longrightarrow> concat (map F (pre @ rest)) = concat (map F rest)"
  by (induction pre) auto

lemma first_Seq_skip:
  "runs a sg = pre @ x # xs \<Longrightarrow> \<forall>y\<in>set pre. runs b y = [] \<Longrightarrow> first b x = Some z
     \<Longrightarrow> first (Seq a b) sg = Some z"
proof -
  assume a: "runs a sg = pre @ x # xs" "\<forall>y\<in>set pre. runs b y = []" "first b x = Some z"
  have "concat (map (runs b) pre) = []" using a(2) by simp
  then have "runs (Seq a b) sg = runs b x @ concat (map (runs b) xs)"
    using a(1) by simp
  then show ?thesis using a(3) by (auto simp: first_def split: list.splits)
qed

subsection \<open>Greedy repetition\<close>

lemma star_alts_suffix: "y \<in> set (star_alts c s) \<Longrightarrow> suffix y s"
  by (induction s) (auto simp: suffix_ConsI split: if_splits)

lemma star_alts_stop: "s = [] \<or> \<not> cls_ok c (hd s) \<Longrightarrow> star_alts c s = [s]"
  by (cases s) auto

lemma star_alts_append:
  "list_all (cls_ok c) a \<Longrightarrow> \<exists>rest. star_alts c (a @ u) = star_alts c u @ rest"
  by (induction a) auto

lemma star_alts_Cons: "cls_ok c x \<Longrightarrow> star_alts c (x # xs) = star_alts c xs @ [x # xs]"
  by simp

lemma star_alts_all:
  "list_all (cls_ok c) a \<Longrightarrow> u = [] \<or> \<not> cls_ok c (hd u)
     \<Longrightarrow> \<exists>rest. star_alts c (a @ u) = u # rest"
  using star_alts_append[of c a u] star_alts_stop[of u c] by auto

lemma star_alts_at:
  "list_all (cls_ok c) a \<Longrightarrow> cls_ok c x
     \<Longrightarrow> \<exists>rest. star_alts c (a @ x # u) = star_alts c u @ (x # u) # rest"
  using star_alts_append[of c a "x # u"] by auto

lemma Dot_all: "newline \<notin> set a \<Longrightarrow> list_all (cls_ok Dot) a"
  by (induction a) auto

lemma runs_Seq_hd:
  "runs a sg = x # xs \<Longrightarrow> runs b x = y # ys \<Longrightarrow> \<exists>rest. runs (Seq a b) sg = y # rest"
  by simp

lemma runs_Opt_hd: "runs a sg = x # xs \<Longrightarrow> \<exists>rest. runs (Opt a) sg = x # rest"
  by simp

lemma runs_Plus_hd:
  assumes "a \<noteq> []" "list_all (cls_ok c) a" "u = [] \<or> \<not> cls_ok c (hd u)"
  shows "\<exists>rest. runs (Plus c) (a @ u, g) = (u, g) # rest"
proof -
  obtain x a' where a: "a = x # a'" using assms(1) by (cases a) auto
  then have "cls_ok c x" "list_all (cls_ok c) a'" using assms(2) by auto
  moreover obtain rest where "star_alts c (a' @ u) = u # rest"
    using star_alts_all[OF \<open>list_all (cls_ok c) a'\<close> assms(3)] by blast
  ultimately show ?thesis using a by simp
qed

lemma runs_Group_hd:
  "runs a (s, g) = (s', g') # rest
     \<Longrightarrow> \<exists>rest'. runs (Group n a) (s, g) = (s', g'(n \<mapsto> take (length s - length s') s)) # rest'"
  by simp

text \<open>A count followed by its word: \<^verbatim>\<open>(?P<n>\d+) word\<close> on \<open>digits word rest\<close>.\<close>

lemma runs_count_hd:
  assumes "digits_only ds" "w \<noteq> []" "\<not> is_digit (hd w)"
  shows "\<exists>rest. runs (Seq (Group n (Plus Digit)) (Str w)) (ds @ w @ v, g)
                  = (v, g(n \<mapsto> ds)) # rest"
proof -
  have "w @ v = [] \<or> \<not> cls_ok Digit (hd (w @ v))" using assms(2,3) by simp
  moreover have "ds \<noteq> []" "list_all (cls_ok Digit) ds"
    using assms(1) by (auto simp: digits_only_def list_all_iff)
  ultimately obtain r1 where "runs (Plus Digit) (ds @ w @ v, g) = (w @ v, g) # r1"
    using runs_Plus_hd[of ds Digit "w @ v" g] by blast
  from runs_Group_hd[OF this, of n]
  obtain r2 where "runs (Group n (Plus Digit)) (ds @ w @ v, g) = (w @ v, g(n \<mapsto> ds)) # r2"
    by auto
  moreover have "runs (Str w) (w @ v, g(n \<mapsto> ds)) = [(v, g(n \<mapsto> ds))]"
    by (simp add: runs_Str starts_with_def)
  ultimately show ?thesis by simp
qed

subsection \<open>The end of the pattern\<close>

lemma first_seconds_tail:
  assumes "newline \<notin> set w"
  shows "first seconds_tail ('' seconds'' @ w, g) = Some ([], g)"
proof -
  obtain rest where "star_alts Dot (w @ []) = [] # rest"
    using star_alts_all[OF Dot_all[OF assms], of "[]"] by auto
  then have "runs (Star Dot) (w, g) = ([], g) # map (\<lambda>s'. (s', g)) rest" by simp
  then have "first (Star Dot) (w, g) = Some ([], g)" by (simp add: first_def)
  then show ?thesis
    unfolding seconds_tail_def using first_Seq_Str[of "'' seconds''" "Star Dot" w g] by simp
qed

lemma starts_withD:
  assumes "starts_with w s" obtains r where "s = w @ r"
  using assms by (metis append_take_drop_id starts_with_def)

lemma runs_Seq_Str_append: "runs (Seq (Str w) b) (w @ s, g) = runs b (s, g)"
  by (simp add: runs_Str starts_with_def)

lemma no_seconds_after:
  assumes "suffix y (''seconds '' @ replicate n CHR ''='')"
  shows "\<not> starts_with '' seconds'' y"
proof
  assume "starts_with '' seconds'' y"
  then obtain r where y: "y = '' seconds'' @ r" by (rule starts_withD)
  obtain p where p: "''seconds '' @ replicate n CHR ''='' = p @ y"
    using assms by (auto simp: suffix_def)
  have "''seconds'' @ CHR '' '' # replicate n CHR ''='' = p @ CHR '' '' # (''seconds'' @ r)"
    using p y by (metis append_Cons append_Nil append_assoc)
  moreover have "CHR '' '' \<notin> set ''seconds''" "CHR '' '' \<notin> set (replicate n CHR ''='')"
    by auto
  ultimately have "replicate n CHR ''='' = ''seconds'' @ r"
    using append_Cons_eq_iff[of "CHR '' ''" "''seconds''" "replicate n CHR ''=''" p
            "''seconds'' @ r"] by blast
  then have "CHR ''s'' \<in> set (replicate n CHR ''='')" by (metis append_Cons list.set_intros(1))
  then show False by auto
qed

lemma first_time_tail:
  assumes "newline \<notin> set t" "newline \<notin> set w"
    and "\<forall>y. suffix y (''seconds'' @ w) \<longrightarrow> \<not> starts_with '' seconds'' y"
  shows "first time_tail (t @ '' seconds'' @ w, g) = Some ([], g(''time'' \<mapsto> t))"
proof -
  let ?T = "t @ '' seconds'' @ w"
  let ?V = "'' seconds'' @ w"
  let ?h = "\<lambda>s'. (s', g(''time'' \<mapsto> take (length ?T - length s') ?T))"
  have "cls_ok Dot CHR '' ''" by (simp add: newline_def)
  from star_alts_at[OF Dot_all[OF assms(1)] this, of "''seconds'' @ w"]
  obtain rest where r: "star_alts Dot ?T = star_alts Dot (''seconds'' @ w) @ ?V # rest"
    by auto
  have "runs (Group ''time'' (Star Dot)) (?T, g) = map ?h (star_alts Dot ?T)"
    by simp
  then have runs: "runs (Group ''time'' (Star Dot)) (?T, g)
      = map ?h (star_alts Dot (''seconds'' @ w)) @ ?h ?V # map ?h rest"
    by (simp only: r map_append list.map)
  have skip: "\<forall>y\<in>set (map ?h (star_alts Dot (''seconds'' @ w))). runs seconds_tail y = []"
  proof
    fix y assume "y \<in> set (map ?h (star_alts Dot (''seconds'' @ w)))"
    then obtain s' where s': "s' \<in> set (star_alts Dot (''seconds'' @ w))" "y = ?h s'" by auto
    then have "\<not> starts_with '' seconds'' s'" using assms(3) star_alts_suffix by blast
    then show "runs seconds_tail y = []" using s'(2) by (simp add: seconds_tail_def runs_Str)
  qed
  have "?h ?V = (?V, g(''time'' \<mapsto> t))" by simp
  moreover have "first seconds_tail (?V, g(''time'' \<mapsto> t)) = Some ([], g(''time'' \<mapsto> t))"
    using assms(2) by (rule first_seconds_tail)
  ultimately have "first seconds_tail (?h ?V) = Some ([], g(''time'' \<mapsto> t))" by simp
  from first_Seq_skip[OF runs skip this] show ?thesis by (simp add: time_tail_def)
qed

lemma first_filler_tail:
  assumes "first time_tail (T, g) = Some z" "CHR ''i'' \<notin> set T"
  shows "first filler_tail ('' in '' @ T, g) = Some z"
proof -
  let ?h = "\<lambda>s'. (s', g)"
  have "cls_ok Dot CHR ''i''" "list_all (cls_ok Dot) '' ''" by (simp_all add: newline_def)
  from star_alts_at[OF this(2) this(1), of "''n '' @ T"]
  obtain rest where r: "star_alts Dot ('' in '' @ T) = star_alts Dot (''n '' @ T) @ (''in '' @ T) # rest"
    by auto
  have "runs (Star Dot) ('' in '' @ T, g) = map ?h (star_alts Dot ('' in '' @ T))" by simp
  then have runs: "runs (Star Dot) ('' in '' @ T, g)
      = map ?h (star_alts Dot (''n '' @ T)) @ ?h (''in '' @ T) # map ?h rest"
    by (simp only: r map_append list.map)
  have skip: "\<forall>y\<in>set (map ?h (star_alts Dot (''n '' @ T))). runs in_tail y = []"
  proof
    fix y assume "y \<in> set (map ?h (star_alts Dot (''n '' @ T)))"
    then obtain s' where s': "s' \<in> set (star_alts Dot (''n '' @ T))" "y = ?h s'" by auto
    then have "set s' \<subseteq> set (''n '' @ T)" using star_alts_suffix set_mono_suffix by blast
    then have "CHR ''i'' \<notin> set s'" using assms(2) by auto
    then have "\<not> starts_with ''in '' s'" by (cases s') (auto simp: starts_with_def)
    then show "runs in_tail y = []" using s'(2) by (simp add: in_tail_def runs_Str)
  qed
  have "first in_tail (''in '' @ T, g) = Some z"
    unfolding in_tail_def using first_Seq_Str[of "''in ''" time_tail T g] assms(1) by simp
  from first_Seq_skip[OF runs skip this] show ?thesis by (simp add: filler_tail_def)
qed

lemma first_passed_tail:
  assumes "digits_only ds" "first filler_tail (v, g(''success'' \<mapsto> ds)) = Some z"
  shows "first passed_tail (ds @ '' passed'' @ v, g) = Some z"
proof -
  obtain r1 where "runs (Seq (Group ''success'' (Plus Digit)) (Str '' passed''))
                     (ds @ '' passed'' @ v, g) = (v, g(''success'' \<mapsto> ds)) # r1"
    using runs_count_hd[OF assms(1), of "'' passed''" "''success''" v g]
    by (auto simp: is_digit_def)
  then obtain r2 where "runs (Opt (Seq (Group ''success'' (Plus Digit)) (Str '' passed'')))
                     (ds @ '' passed'' @ v, g) = (v, g(''success'' \<mapsto> ds)) # r2"
    by simp
  from first_Seq_hd[OF this assms(2)] show ?thesis by (simp add: passed_tail_def)
qed

lemma first_comma_tail:
  assumes "first passed_tail (v, g) = Some z"
  shows "first comma_tail ('', '' @ v, g) = Some z"
proof -
  have "runs (Opt (One (Lit CHR '',''))) ('', '' @ v, g) = [('' '' @ v, g), ('', '' @ v, g)]"
    by simp
  moreover have "first blank_tail ('' '' @ v, g) = Some z"
    unfolding blank_tail_def using first_Seq_Str[of "'' ''" passed_tail v g] assms by simp
  ultimately show ?thesis using first_Seq_hd[of "Opt (One (Lit CHR '',''))"] 
    by (simp add: comma_tail_def)
qed

lemma first_failed_tail:
  assumes "digits_only ds" "first comma_tail (v, g(''failed'' \<mapsto> ds)) = Some z"
  shows "first failed_tail ('' '' @ ds @ '' failed'' @ v, g) = Some z"
proof -
  obtain r1 where "runs (Seq (Group ''failed'' (Plus Digit)) (Str '' failed''))
                     (ds @ '' failed'' @ v, g) = (v, g(''failed'' \<mapsto> ds)) # r1"
    using runs_count_hd[OF assms(1), of "'' failed''" "''failed''" v g]
    by (auto simp: is_digit_def)
  then have "runs (Seq (Str '' '') (Seq (Group ''failed'' (Plus Digit)) (Str '' failed'')))
                     ('' '' @ ds @ '' failed'' @ v, g) = (v, g(''failed'' \<mapsto> ds)) # r1"
    using runs_Seq_Str_append[of "'' ''" "Seq (Group ''failed'' (Plus Digit)) (Str '' failed'')"
            "ds @ '' failed'' @ v" g]
    by (simp del: runs.simps)
  then obtain r2 where
    "runs (Opt (Seq (Str '' '') (Seq (Group ''failed'' (Plus Digit)) (Str '' failed''))))
        ('' '' @ ds @ '' failed'' @ v, g) = (v, g(''failed'' \<mapsto> ds)) # r2"
    by simp
  from first_Seq_hd[OF this assms(2)] show ?thesis by (simp add: failed_tail_def)
qed

lemma first_banner:
  assumes "3 \<le> m" "v \<noteq> []" "hd v \<noteq> CHR ''=''" "first failed_tail (v, g) = Some z"
  shows "first RESULT_PATTERN (replicate m CHR ''='' @ v, g) = Some z"
proof -
  obtain k where m: "m = Suc (Suc (Suc k))" using assms(1)
    by (metis Suc_le_D numeral_3_eq_3 Suc_le_mono)
  have "\<exists>rest. runs (Plus (Lit CHR ''='')) (replicate (Suc k) CHR ''='' @ v, g) = (v, g) # rest"
    using assms(2,3) by (intro runs_Plus_hd) (auto simp: list_all_iff)
  then obtain rest where
    "runs (Plus (Lit CHR ''='')) (replicate (Suc k) CHR ''='' @ v, g) = (v, g) # rest" by blast
  from first_Seq_hd[OF this assms(4)]
  have "first (Seq (Plus (Lit CHR ''='')) failed_tail) (replicate (Suc k) CHR ''='' @ v, g) = Some z" .
  moreover have "replicate m CHR ''='' @ v = ''=='' @ replicate (Suc k) CHR ''='' @ v"
    using m by simp
  ultimately show ?thesis
    unfolding RESULT_PATTERN_tails
    using first_Seq_Str[of "''==''" "Seq (Plus (Lit CHR ''='')) failed_tail"
            "replicate (Suc k) CHR ''='' @ v" g]
    by simp
qed

text \<open>The groups of a summary line.\<close>

lemma re_match_summary_line:
  assumes "3 \<le> m" "digits_only fs" "digits_only ps" "newline \<notin> set t" "CHR ''i'' \<notin> set t"
  shows "re_match RESULT_PATTERN
           (replicate m CHR ''='' @ '' '' @ fs @ '' failed, '' @ ps @ '' passed in '' @ t
              @ '' seconds '' @ replicate n CHR ''='')
         = Some [''failed'' \<mapsto> fs, ''success'' \<mapsto> ps, ''time'' \<mapsto> t]"
proof -
  let ?w = "'' '' @ replicate n CHR ''=''"
  let ?T = "t @ '' seconds'' @ ?w"
  let ?g = "[''failed'' \<mapsto> fs, ''success'' \<mapsto> ps]"
  let ?z = "([], ?g(''time'' \<mapsto> t))"
  have nl: "newline \<notin> set ?w" by (auto simp: newline_def)
  have "\<forall>y. suffix y (''seconds'' @ ?w) \<longrightarrow> \<not> starts_with '' seconds'' y"
    using no_seconds_after[of _ n] by simp
  from first_time_tail[OF assms(4) nl this]
  have 1: "first time_tail (?T, ?g) = Some ?z" .
  have "CHR ''i'' \<notin> set ?T" using assms(5) by auto
  from first_filler_tail[OF 1 this]
  have 2: "first filler_tail ('' in '' @ ?T, ?g) = Some ?z" .
  from first_passed_tail[OF assms(3), of "'' in '' @ ?T" "[''failed'' \<mapsto> fs]" ?z] 2
  have 3: "first passed_tail (ps @ '' passed'' @ '' in '' @ ?T, [''failed'' \<mapsto> fs]) = Some ?z"
    by simp
  from first_comma_tail[OF 3]
  have 4: "first comma_tail ('', '' @ ps @ '' passed'' @ '' in '' @ ?T, [''failed'' \<mapsto> fs]) = Some ?z" .
  from first_failed_tail[OF assms(2), of "'', '' @ ps @ '' passed'' @ '' in '' @ ?T" Map.empty ?z] 4
  have 5: "first failed_tail ('' '' @ fs @ '' failed'' @ '', '' @ ps @ '' passed'' @ '' in '' @ ?T,
              Map.empty) = Some ?z"
    by simp
  have "first RESULT_PATTERN (replicate m CHR ''='' @
           ('' '' @ fs @ '' failed'' @ '', '' @ ps @ '' passed'' @ '' in '' @ ?T), Map.empty) = Some ?z"
    using assms(1) 5 by (intro first_banner) auto
  then show ?thesis by (simp add: re_match_first)
qed

subsection \<open>Lines without counts\<close>

lemma star_alts_cases:
  "y \<in> set (star_alts c s) \<Longrightarrow> y = dropWhile (cls_ok c) s \<or> (y \<noteq> [] \<and> cls_ok c (hd y))"
  by (induction s) (auto split: if_splits)

lemma starts_with_hd:
  "w \<noteq> [] \<Longrightarrow> y \<noteq> [] \<Longrightarrow> hd y \<noteq> hd w \<Longrightarrow> \<not> starts_with w y"
  by (cases w; cases y) (auto simp: starts_with_def)

lemma runs_count_none:
  assumes "\<not> count_clause word s" "word \<noteq> []" "\<not> is_digit (hd word)"
  shows "runs (Seq (Group n (Plus Digit)) (Str word)) (s, g) = []"
proof (cases s)
  case Nil
  then show ?thesis by simp
next
  case (Cons x xs)
  show ?thesis
  proof (cases "is_digit x")
    case False
    then show ?thesis using Cons by simp
  next
    case True
    have d: "\<not> starts_with word (dropWhile is_digit xs)"
      using assms(1) Cons True by (simp add: count_clause_def)
    have "\<And>y. y \<in> set (star_alts Digit xs) \<Longrightarrow> \<not> starts_with word y"
    proof -
      fix y assume "y \<in> set (star_alts Digit xs)"
      from star_alts_cases[OF this]
      consider "y = dropWhile (cls_ok Digit) xs" | "y \<noteq> []" "cls_ok Digit (hd y)" by blast
      then show "\<not> starts_with word y"
      proof cases
        case 1
        moreover have "cls_ok Digit = is_digit" by (rule ext) simp
        ultimately show ?thesis using d by simp
      next
        case 2
        then have "hd y \<noteq> hd word" using assms(3) by auto
        then show ?thesis using starts_with_hd[OF assms(2) 2(1)] by simp
      qed
    qed
    then have "\<forall>y\<in>set (star_alts Digit xs). runs (Str word) (y, g') = []" for g'
      by (simp add: runs_Str)
    then show ?thesis using Cons True
      by (auto simp: runs_Str simp del: runs.simps(2) split: if_splits)
  qed
qed


lemma dropWhile_all: "list_all P w \<Longrightarrow> dropWhile P (w @ u) = dropWhile P u"
  by (induction w) auto

lemma count_clause_append:
  assumes "\<not> count_clause word w" "word \<noteq> []" "hd word = CHR '' ''"
    and "last word = CHR ''d''" "CHR ''n'' \<notin> set word"
  shows "\<not> count_clause word (w @ ''in '' @ T)"
proof (cases "list_all is_digit w")
  case True
  have "dropWhile is_digit (w @ ''in '' @ T) = ''in '' @ T"
    using dropWhile_all[OF True, of "''in '' @ T"] by (simp add: is_digit_def)
  moreover have "\<not> starts_with word (''in '' @ T)"
    using starts_with_hd[OF assms(2), of "''in '' @ T"] assms(3) by simp
  ultimately show ?thesis by (simp add: count_clause_def)
next
  case False
  then obtain x where x: "x \<in> set w" "\<not> is_digit x" by (auto simp: list_all_iff)
  let ?r = "dropWhile is_digit w"
  have tk: "takeWhile is_digit (w @ ''in '' @ T) = takeWhile is_digit w"
    using x by (rule takeWhile_append1)
  have dr: "dropWhile is_digit (w @ ''in '' @ T) = ?r @ ''in '' @ T"
    using x by (rule dropWhile_append1)
  show ?thesis
  proof
    assume c: "count_clause word (w @ ''in '' @ T)"
    then have t: "takeWhile is_digit w \<noteq> []" and s: "starts_with word (?r @ ''in '' @ T)"
      using tk dr by (simp_all add: count_clause_def)
    then have ns: "\<not> starts_with word ?r" using assms(1) by (simp add: count_clause_def)
    from s obtain v where v: "?r @ ''in '' @ T = word @ v" by (rule starts_withD) simp
    have "\<not> length word \<le> length ?r"
    proof
      assume "length word \<le> length ?r"
      then have "take (length word) ?r = take (length word) (?r @ ''in '' @ T)" by simp
      also have "\<dots> = word" using v by simp
      finally show False using ns by (simp add: starts_with_def)
    qed
    then have l: "length ?r < length word" by simp
    then obtain u where u: "word = ?r @ u" "u \<noteq> []" "''in '' @ T = u @ v"
      using v by (auto simp: append_eq_append_conv2)
    then obtain u' where u': "u = CHR ''i'' # u'" by (cases u) auto
    show False
    proof (cases u')
      case Nil
      then have "last word = CHR ''i''" using u u' by simp
      then show False using assms(4) by simp
    next
      case (Cons a b)
      then have "a = CHR ''n''" using u(3) u' by simp
      then have "CHR ''n'' \<in> set word" using u(1) u' Cons by simp
      then show False using assms(5) by simp
    qed
  qed
qed

lemma first_filler_tail_any:
  assumes "first time_tail (T, g) = Some z" "CHR ''i'' \<notin> set T" "newline \<notin> set w"
  shows "first filler_tail (w @ ''in '' @ T, g) = Some z"
proof -
  let ?h = "\<lambda>s'. (s', g)"
  have "cls_ok Dot CHR ''i''" by (simp add: newline_def)
  from star_alts_at[OF Dot_all[OF assms(3)] this, of "''n '' @ T"]
  obtain rest where r: "star_alts Dot (w @ ''in '' @ T) = star_alts Dot (''n '' @ T) @ (''in '' @ T) # rest"
    by auto
  have "runs (Star Dot) (w @ ''in '' @ T, g) = map ?h (star_alts Dot (w @ ''in '' @ T))" by simp
  then have runs: "runs (Star Dot) (w @ ''in '' @ T, g)
      = map ?h (star_alts Dot (''n '' @ T)) @ ?h (''in '' @ T) # map ?h rest"
    by (simp only: r map_append list.map)
  have skip: "\<forall>y\<in>set (map ?h (star_alts Dot (''n '' @ T))). runs in_tail y = []"
  proof
    fix y assume "y \<in> set (map ?h (star_alts Dot (''n '' @ T)))"
    then obtain s' where s': "s' \<in> set (star_alts Dot (''n '' @ T))" "y = ?h s'" by auto
    then have "set s' \<subseteq> set (''n '' @ T)" using star_alts_suffix set_mono_suffix by blast
    then have "CHR ''i'' \<notin> set s'" using assms(2) by auto
    then have "\<not> starts_with ''in '' s'" by (cases s') (auto simp: starts_with_def)
    then show "runs in_tail y = []" using s'(2) by (simp add: in_tail_def runs_Str)
  qed
  have "first in_tail (''in '' @ T, g) = Some z"
    unfolding in_tail_def using first_Seq_Str[of "''in ''" time_tail T g] assms(1) by simp
  from first_Seq_skip[OF runs skip this] show ?thesis by (simp add: filler_tail_def)
qed

lemma first_Seq_Opt_none:
  "runs a sg = [] \<Longrightarrow> first (Seq (Opt a) b) sg = first b sg"
  by (simp add: first_def)

lemma first_passed_tail_none:
  assumes "\<not> count_clause '' passed'' v"
  shows "first passed_tail (v, g) = first filler_tail (v, g)"
proof -
  have "runs (Seq (Group ''success'' (Plus Digit)) (Str '' passed'')) (v, g) = []"
    using assms by (intro runs_count_none) (simp_all add: is_digit_def)
  then show ?thesis unfolding passed_tail_def by (rule first_Seq_Opt_none)
qed

lemma first_comma_tail_blank:
  "first comma_tail ('' '' @ v, g) = first passed_tail (v, g)"
proof -
  have "runs (One (Lit CHR '','')) ('' '' @ v, g) = []" by simp
  then have "first comma_tail ('' '' @ v, g) = first blank_tail ('' '' @ v, g)"
    unfolding comma_tail_def by (rule first_Seq_Opt_none)
  then show ?thesis
    unfolding blank_tail_def using first_Seq_Str[of "'' ''" passed_tail v g] by simp
qed

lemma first_failed_tail_none:
  assumes "\<not> count_clause '' failed'' v"
  shows "first failed_tail ('' '' @ v, g) = first passed_tail (v, g)"
proof -
  have "runs (Seq (Group ''failed'' (Plus Digit)) (Str '' failed'')) (v, g) = []"
    using assms by (intro runs_count_none) (simp_all add: is_digit_def)
  then have "runs (Seq (Str '' '') (Seq (Group ''failed'' (Plus Digit)) (Str '' failed'')))
               ('' '' @ v, g) = []"
    using runs_Seq_Str_append[of "'' ''" "Seq (Group ''failed'' (Plus Digit)) (Str '' failed'')" v g]
    by (simp del: runs.simps)
  then have "first failed_tail ('' '' @ v, g) = first comma_tail ('' '' @ v, g)"
    unfolding failed_tail_def by (rule first_Seq_Opt_none)
  then show ?thesis by (simp only: first_comma_tail_blank)
qed

text \<open>The groups of a line without counts.\<close>

lemma re_match_no_counts_line:
  assumes "3 \<le> m" "newline \<notin> set w" "\<not> count_clause '' failed'' w"
    and "\<not> count_clause '' passed'' w" "newline \<notin> set t" "CHR ''i'' \<notin> set t"
  shows "re_match RESULT_PATTERN (no_counts_line m w t n) = Some [''time'' \<mapsto> t]"
proof -
  let ?e = "'' '' @ replicate n CHR ''=''"
  let ?T = "t @ '' seconds'' @ ?e"
  let ?v = "w @ ''in '' @ ?T"
  let ?z = "([], [''time'' \<mapsto> t])"
  have nl: "newline \<notin> set ?e" by (auto simp: newline_def)
  have "\<forall>y. suffix y (''seconds'' @ ?e) \<longrightarrow> \<not> starts_with '' seconds'' y"
    using no_seconds_after[of _ n] by simp
  from first_time_tail[OF assms(5) nl this]
  have 1: "first time_tail (?T, Map.empty) = Some ?z" .
  have "CHR ''i'' \<notin> set ?T" using assms(6) by auto
  from first_filler_tail_any[OF 1 this assms(2)]
  have 2: "first filler_tail (?v, Map.empty) = Some ?z" .
  have p: "\<not> count_clause '' passed'' ?v"
    using assms(4) by (intro count_clause_append) simp_all
  have f: "\<not> count_clause '' failed'' ?v"
    using assms(3) by (intro count_clause_append) simp_all
  have 3: "first failed_tail ('' '' @ ?v, Map.empty) = Some ?z"
    using first_failed_tail_none[OF f] first_passed_tail_none[OF p] 2 by simp
  have "first RESULT_PATTERN (replicate m CHR ''='' @ ('' '' @ ?v), Map.empty) = Some ?z"
    using assms(1) 3 by (intro first_banner) auto
  then show ?thesis by (simp add: re_match_first no_counts_line_def)
qed

section \<open>Counts\<close>

lemma digit_chr_cases:
  assumes "d < 10"
  shows "is_digit (digit_chr d) \<and> digit_val (digit_chr d) = d"
proof -
  from assms have "d \<in> {0, 1, 2, 3, 4, 5, 6, 7, 8, 9}" by auto
  then show ?thesis
    by (auto simp: digit_chr_def is_digit_def digit_val_def)
qed

lemma digits_only_dec: "digits_only (dec n)"
proof (induction n rule: dec.induct)
  case (1 n)
  show ?case
  proof (cases "n < 10")
    case True
    then show ?thesis using digit_chr_cases[of n] by (subst dec.simps) (simp add: digits_only_def)
  next
    case False
    then have "n mod 10 < 10" by simp
    with False 1 show ?thesis using digit_chr_cases[of "n mod 10"]
      by (subst dec.simps) (simp add: digits_only_def)
  qed
qed

lemma digits_val_snoc: "digits_val (ds @ [c]) = 10 * digits_val ds + digit_val c"
  by (simp add: digits_val_def)

lemma digits_val_dec: "digits_val (dec n) = n"
proof (induction n rule: dec.induct)
  case (1 n)
  show ?case
  proof (cases "n < 10")
    case True
    then show ?thesis using digit_chr_cases[of n] by (subst dec.simps) (simp add: digits_val_def)
  next
    case False
    then have "n mod 10 < 10" by simp
    with False 1 show ?thesis using digit_chr_cases[of "n mod 10"]
      by (subst dec.simps) (simp add: digits_val_snoc)
  qed
qed

lemma digit_not_space: "is_digit c \<Longrightarrow> \<not> is_space c \<and> c \<noteq> CHR ''_'' \<and> c \<noteq> CHR ''-'' \<and> c \<noteq> CHR ''+''"
  by (auto simp: is_digit_def is_space_def)

lemma underscores_ok_digits:
  "list_all is_digit ds \<Longrightarrow> prev \<noteq> CHR ''_'' \<Longrightarrow> underscores_ok prev ds"
  by (induction ds arbitrary: prev) (auto dest: digit_not_space)

lemma dropWhile_hd: "xs = [] \<or> \<not> P (hd xs) \<Longrightarrow> dropWhile P xs = xs"
  by (cases xs) auto

lemma strip_digits:
  assumes "digits_only ds" shows "strip ds = ds"
proof -
  have ne: "ds \<noteq> []" and all: "\<forall>c\<in>set ds. \<not> is_space c"
    using assms digit_not_space by (auto simp: digits_only_def list_all_iff)
  have 1: "dropWhile is_space ds = ds" using ne all by (intro dropWhile_hd) auto
  have "rev ds \<noteq> []" "\<not> is_space (hd (rev ds))" using ne all by (auto simp: hd_rev)
  then have "dropWhile is_space (rev ds) = rev ds" by (intro dropWhile_hd) auto
  with 1 show ?thesis by (simp add: strip_def)
qed

lemma py_int_digits:
  assumes "digits_only ds" shows "py_int ds = Inr (int (digits_val ds))"
proof -
  have all: "list_all is_digit ds" and ne: "ds \<noteq> []" using assms by (auto simp: digits_only_def)
  have u: "underscores_ok (CHR 0x00) ds" using all by (intro underscores_ok_digits) auto
  have f: "filter (\<lambda>c. c \<noteq> CHR ''_'') ds = ds"
    using all digit_not_space by (auto simp: list_all_iff filter_id_conv)
  obtain c cs where c: "ds = c # cs" using ne by (cases ds) auto
  then have "is_digit c" using all by simp
  then have s: "split_sign ds = (False, ds)" using c digit_not_space[of c]
    by (simp add: split_sign_def)
  show ?thesis using u f s all ne by (simp add: py_int_def strip_digits[OF assms])
qed

lemma count_of_digits:
  "digits_only ds \<Longrightarrow> count_of (Some ds) = Inr (Some (int (digits_val ds)))"
  by (simp add: count_of_def safe_cast_def py_int_digits digits_only_def)

lemma count_of_dec: "count_of (Some (dec n)) = Inr (Some (int n))"
  using count_of_digits[OF digits_only_dec, of n] by (simp add: digits_val_dec)

section \<open>The quotient of two counts\<close>

lemma bits_upper: "n < 2 ^ bits n"
proof (induction n rule: bits.induct)
  case (1 n)
  show ?case
  proof (cases "n = 0")
    case True
    then show ?thesis by (subst bits.simps) simp
  next
    case False
    then have "n div 2 < 2 ^ bits (n div 2)" using 1 by simp
    then have "n < 2 * 2 ^ bits (n div 2)" by linarith
    then show ?thesis using False by (subst bits.simps) simp
  qed
qed

lemma bits_lower: "0 < n \<Longrightarrow> 2 ^ (bits n - 1) \<le> n"
proof (induction n rule: bits.induct)
  case (1 n)
  show ?case
  proof (cases "n div 2 = 0")
    case True
    then have "bits (n div 2) = 0" by (subst bits.simps) simp
    then have "bits n = 1" using 1(2) by (subst bits.simps) simp
    then show ?thesis using 1(2) by simp
  next
    case False
    then have h: "2 ^ (bits (n div 2) - 1) \<le> n div 2" using 1 by simp
    have p: "0 < bits (n div 2)" using False by (subst bits.simps) simp
    have "bits n = Suc (bits (n div 2))" using 1(2) by (subst bits.simps) simp
    then have "2 ^ (bits n - 1) = 2 * 2 ^ (bits (n div 2) - 1)"
      using p by (cases "bits (n div 2)") auto
    also have "\<dots> \<le> 2 * (n div 2)" using h by simp
    also have "\<dots> \<le> n" by simp
    finally show ?thesis .
  qed
qed

lemma bits_mono: "n \<le> d \<Longrightarrow> bits n \<le> bits d"
proof (rule ccontr)
  assume a: "n \<le> d" "\<not> bits n \<le> bits d"
  then have "bits d \<le> bits n - 1" "0 < n"
    by (auto simp: bits.simps[of 0] intro!: Nat.gr0I)
  then have "(2::nat) ^ bits d \<le> 2 ^ (bits n - 1)" by (intro power_increasing) auto
  also have "\<dots> \<le> n" using \<open>0 < n\<close> by (rule bits_lower)
  finally show False using a(1) bits_upper[of d] by linarith
qed

text \<open>For \<open>0 < n \<le> d\<close> the quotient lies below \<open>2\<^sup>e\<^sup>+\<^sup>1\<close> for \<open>e = floor_log2 n d \<le> 0\<close>.\<close>

lemma floor_log2_le:
  assumes "0 < n" "n \<le> d"
  shows "floor_log2 n d \<le> 0 \<and> n * 2 ^ nat (- floor_log2 n d) < 2 * d"
proof -
  define j where "j = bits d - bits n"
  have bd: "bits n \<le> bits d" using assms(2) by (rule bits_mono)
  then have e: "int (bits n) - int (bits d) = - int j" by (simp add: j_def)
  have "n * 2 ^ j < 2 ^ bits n * 2 ^ j" using bits_upper[of n] by simp
  also have "\<dots> = 2 ^ bits d" using bd by (simp add: j_def flip: power_add)
  also have "\<dots> \<le> 2 * 2 ^ (bits d - 1)"
    by (cases "bits d") auto
  also have "\<dots> \<le> 2 * d" using bits_lower[of d] assms by simp
  finally have up: "n * 2 ^ j < 2 * d" .
  show ?thesis
  proof (cases "d \<le> n * 2 ^ j")
    case True
    then have "floor_log2 n d = - int j" by (simp add: floor_log2_def e Let_def)
    then show ?thesis using up by simp
  next
    case False
    then have fl: "floor_log2 n d = - int j - 1" by (simp add: floor_log2_def e Let_def)
    then have "nat (- floor_log2 n d) = Suc j" by simp
    then show ?thesis using False fl by simp
  qed
qed

lemma rne_div_le: "0 < b \<Longrightarrow> a < b * k \<Longrightarrow> rne_div a b \<le> k"
proof -
  assume b: "0 < b" and a: "a < b * k"
  then have "a div b < k" by (simp add: less_mult_imp_div_less mult.commute)
  then show ?thesis by (auto simp: rne_div_def Let_def)
qed

lemma round64_le:
  assumes "n \<le> d" "0 < d"
  shows "\<exists>m q. round64 n d = Some (m, q)"
proof (cases "n = 0")
  case True
  then show ?thesis by (simp add: round64_def)
next
  case False
  then have n: "0 < n" by simp
  define fl where "fl = floor_log2 n d"
  define q where "q = max fl (- 1022) - 52"
  define K where "K = nat (- q)"
  have fl: "fl \<le> 0" "n * 2 ^ nat (- fl) < 2 * d"
    using floor_log2_le[OF n assms(1)] by (simp_all add: fl_def)
  have qneg: "q < 0" "nat q = 0" using fl(1) by (simp_all add: q_def)
  have "K \<le> 52 + nat (- fl)" using fl(1) by (simp add: K_def q_def)
  then have "(2::nat) ^ K \<le> 2 ^ (52 + nat (- fl))" by (intro power_increasing) auto
  then have "n * 2 ^ K \<le> n * 2 ^ (52 + nat (- fl))" by simp
  also have "\<dots> = (n * 2 ^ nat (- fl)) * 2 ^ 52" by (simp add: power_add)
  also have "\<dots> < (2 * d) * 2 ^ 52" using fl(2) by simp
  also have "\<dots> = d * 2 ^ 53" by simp
  finally have "n * 2 ^ K < d * 2 ^ 53" .
  then have "rne_div (n * 2 ^ K) d \<le> 2 ^ 53" using assms(2) by (intro rne_div_le) auto
  also have "\<dots> < (2::nat) ^ 1024" by simp
  finally have "\<not> 2 ^ 1024 \<le> rne_div (n * 2 ^ K) d" by simp
  then show ?thesis using False qneg
    by (simp add: round64_def Let_def fl_def[symmetric] q_def[symmetric] K_def[symmetric])
qed

lemma true_div_counts:
  assumes "0 \<le> a" "a \<le> b" "0 < b"
  shows "\<exists>m q. true_div a b = Inr (Fin False m q)"
proof -
  have "nat \<bar>a\<bar> \<le> nat \<bar>b\<bar>" "0 < nat \<bar>b\<bar>" using assms by auto
  from round64_le[OF this] obtain m q where "round64 (nat \<bar>a\<bar>) (nat \<bar>b\<bar>) = Some (m, q)" by blast
  then show ?thesis using assms by (auto simp: true_div_def)
qed

section \<open>The characters of a finite float numeral\<close>

lemma set_split_sign: "split_sign s = (neg, r) \<Longrightarrow> set s \<subseteq> set r \<union> set ''+-''"
  by (auto simp: split_sign_def split: list.splits if_splits)

lemma set_takeWhile_dropWhile: "set xs = set (takeWhile P xs) \<union> set (dropWhile P xs)"
  by (metis set_append takeWhile_dropWhile_id)

lemma parse_decimal_chars:
  assumes "parse_decimal r = Some x"
  shows "list_all numeral_char r"
proof -
  define r1 where "r1 = dropWhile is_digit r"
  have ip: "\<forall>c\<in>set (takeWhile is_digit r). numeral_char c"
    by (auto simp: numeral_char_def dest: set_takeWhileD)
  have split: "set r = set (takeWhile is_digit r) \<union> set r1"
    unfolding r1_def by (rule set_takeWhile_dropWhile)
  have "\<forall>c\<in>set r1. numeral_char c"
  proof (cases r1)
    case Nil
    then show ?thesis by simp
  next
    case (Cons c cs)
    show ?thesis
    proof (cases "c = CHR ''.''")
      case True
      define r2 where "r2 = dropWhile is_digit cs"
      have fp: "\<forall>c\<in>set (takeWhile is_digit cs). numeral_char c"
        by (auto simp: numeral_char_def dest: set_takeWhileD)
      have cs: "set cs = set (takeWhile is_digit cs) \<union> set r2"
        unfolding r2_def by (rule set_takeWhile_dropWhile)
      have "\<forall>c\<in>set r2. numeral_char c"
      proof (cases r2)
        case Nil
        then show ?thesis by simp
      next
        case (Cons e es)
        obtain neg ds where sg: "split_sign es = (neg, ds)" by (cases "split_sign es")
        have "(e = CHR ''e'' \<or> e = CHR ''E'') \<and> list_all is_digit ds"
          using assms True \<open>r1 = c # cs\<close> Cons sg
          by (auto simp: parse_decimal_def r1_def[symmetric] r2_def[symmetric] Let_def
                split: if_splits)
        moreover have "set es \<subseteq> set ds \<union> set ''+-''" using sg by (rule set_split_sign)
        ultimately show ?thesis using Cons
          by (auto simp: numeral_char_def list_all_iff)
      qed
      then show ?thesis using Cons True fp cs by (auto simp: numeral_char_def)
    next
      case False
      obtain neg ds where sg: "split_sign cs = (neg, ds)" by (cases "split_sign cs")
      have "(c = CHR ''e'' \<or> c = CHR ''E'') \<and> list_all is_digit ds"
        using assms False Cons sg
        by (auto simp: parse_decimal_def r1_def[symmetric] Let_def split: if_splits)
      moreover have "set cs \<subseteq> set ds \<union> set ''+-''" using sg by (rule set_split_sign)
      ultimately show ?thesis using Cons
        by (auto simp: numeral_char_def list_all_iff)
    qed
  qed
  then show ?thesis using ip split by (auto simp: list_all_iff)
qed

lemma set_dropWhile_space: "set s \<subseteq> set (dropWhile is_space s) \<union> {c. is_space c}"
  by (induction s) auto

lemma set_strip: "set s \<subseteq> set (strip s) \<union> {c. is_space c}"
proof -
  have "set s \<subseteq> set (dropWhile is_space s) \<union> {c. is_space c}"
    by (rule set_dropWhile_space)
  moreover have "set (rev (dropWhile is_space s))
                  \<subseteq> set (dropWhile is_space (rev (dropWhile is_space s))) \<union> {c. is_space c}"
    by (rule set_dropWhile_space)
  ultimately show ?thesis by (auto simp: strip_def)
qed

lemma py_float_finite_chars:
  assumes "py_float t = Inr (Fin neg m q)"
  shows "\<forall>c\<in>set t. numeral_char c \<or> is_space c \<or> c = CHR ''_''"
proof -
  obtain sg r where sr: "split_sign (strip (filter (\<lambda>c. c \<noteq> CHR ''_'') t)) = (sg, r)"
    by (cases "split_sign (strip (filter (\<lambda>c. c \<noteq> CHR ''_'') t))")
  have "\<exists>x. parse_decimal r = Some x"
    using assms sr by (auto simp: py_float_def split: if_splits option.splits)
  then have r: "list_all numeral_char r" using parse_decimal_chars by blast
  have "set (strip (filter (\<lambda>c. c \<noteq> CHR ''_'') t)) \<subseteq> set r \<union> set ''+-''"
    using sr by (rule set_split_sign)
  then have "\<forall>c\<in>set (strip (filter (\<lambda>c. c \<noteq> CHR ''_'') t)). numeral_char c"
    using r by (auto simp: list_all_iff numeral_char_def)
  then have "\<forall>c\<in>set (filter (\<lambda>c. c \<noteq> CHR ''_'') t). numeral_char c \<or> is_space c"
    using set_strip[of "filter (\<lambda>c. c \<noteq> CHR ''_'') t"] by auto
  then show ?thesis by auto
qed

lemma py_float_finite_no_i:
  assumes "py_float t = Inr (Fin neg m q)"
  shows "CHR ''i'' \<notin> set t"
proof
  assume "CHR ''i'' \<in> set t"
  with py_float_finite_chars[OF assms]
  have "numeral_char CHR ''i'' \<or> is_space CHR ''i'' \<or> CHR ''i'' = CHR ''_''" by blast
  then show False by (simp add: numeral_char_def is_digit_def is_space_def)
qed

section \<open>The groups of a match\<close>

lemma runs_Plus_Digit:
  assumes "(s', g') \<in> set (runs (Plus Digit) (s, g))"
  shows "g' = g \<and> (\<exists>u. s = u @ s' \<and> digits_only u)"
proof -
  have star: "y \<in> set (star_alts Digit xs) \<Longrightarrow> \<exists>u. xs = u @ y \<and> list_all is_digit u" for y xs
  proof (induction xs)
    case Nil
    then show ?case by simp
  next
    case (Cons x xs)
    show ?case
    proof (cases "y = x # xs")
      case True
      then show ?thesis by simp
    next
      case False
      then have "is_digit x" "y \<in> set (star_alts Digit xs)" using Cons.prems by (auto split: if_splits)
      with Cons.IH obtain u where "xs = u @ y" "list_all is_digit u" by blast
      then have "x # xs = (x # u) @ y" "list_all is_digit (x # u)" using \<open>is_digit x\<close> by auto
      then show ?thesis by blast
    qed
  qed
  obtain x xs where s: "s = x # xs" "is_digit x" "s' \<in> set (star_alts Digit xs)" "g' = g"
    using assms by (cases s) (auto split: if_splits)
  from star[OF s(3)] obtain u where "xs = u @ s'" "list_all is_digit u" by blast
  then have "s = (x # u) @ s'" "digits_only (x # u)" using s by (auto simp: digits_only_def)
  then show ?thesis using s(4) by blast
qed

lemma counts_ok_runs:
  "digit_groups r \<Longrightarrow> counts_ok g \<Longrightarrow> (s', g') \<in> set (runs r (s, g)) \<Longrightarrow> counts_ok g'"
proof (induction r arbitrary: s g s' g')
  case (Seq a b)
  from Seq.prems(3) obtain s1 g1 where
    1: "(s1, g1) \<in> set (runs a (s, g))" and 2: "(s', g') \<in> set (runs b (s1, g1))"
    by auto
  have "counts_ok g1" using Seq.IH(1)[OF _ Seq.prems(2) 1] Seq.prems(1) by simp
  then show ?case using Seq.IH(2)[OF _ _ 2] Seq.prems(1) by simp
next
  case (Opt a)
  then show ?case by auto
next
  case (Group n a)
  from Group.prems(3) obtain g1 where
    1: "(s', g1) \<in> set (runs a (s, g))" and g': "g' = g1(n \<mapsto> take (length s - length s') s)"
    by auto
  show ?case
  proof (cases "n = ''failed'' \<or> n = ''success''")
    case True
    then have "a = Plus Digit" using Group.prems(1) by simp
    with 1 runs_Plus_Digit[of s' g1 s g] obtain u where
      u: "g1 = g" "s = u @ s'" "digits_only u" by blast
    then have "take (length s - length s') s = u" by simp
    then show ?thesis using g' u Group.prems(2) True
      by (auto simp: counts_ok_def split: option.splits)
  next
    case False
    then have "counts_ok g1" using Group.IH[OF _ Group.prems(2) 1] Group.prems(1) by simp
    then show ?thesis using g' False by (auto simp: counts_ok_def)
  qed
qed (auto split: list.splits if_splits)

lemma digit_groups_Str: "digit_groups (Str w)"
  by (induction w) (auto simp: Str_def)

lemma counts_ok_match:
  assumes "re_match RESULT_PATTERN line = Some g"
  shows "counts_ok g"
proof -
  have d: "digit_groups RESULT_PATTERN"
    by (simp add: RESULT_PATTERN_def digit_groups_Str)
  obtain s' rest where "runs RESULT_PATTERN (line, Map.empty) = (s', g) # rest"
    using assms by (auto simp: re_match_def split: list.splits)
  then have "(s', g) \<in> set (runs RESULT_PATTERN (line, Map.empty))" by simp
  from counts_ok_runs[OF d _ this] show ?thesis by (simp add: counts_ok_def)
qed

section \<open>What a matched line parses to\<close>

lemma format_pct0_zero: "format_pct0 (Fin False 0 0) = ''0%''"
  by (simp add: round64_def rne_div_def dec_eval)

lemma count_of_ok:
  assumes "counts_ok g" "n = ''failed'' \<or> n = ''success''"
  shows "\<exists>c. 0 \<le> c \<and> count_of (g n) = Inr (Some c) \<and> (g n = None \<longrightarrow> c = 0)
            \<and> (\<forall>v. g n = Some v \<longrightarrow> c = int (digits_val v))"
proof (cases "g n")
  case None
  then show ?thesis by (simp add: count_of_def)
next
  case (Some v)
  then have "digits_only v" using assms by (auto simp: counts_ok_def)
  then show ?thesis using Some count_of_digits[of v] by simp
qed

lemma parse_matched:
  assumes "re_match RESULT_PATTERN line = Some g"
  shows "\<exists>f s. 0 \<le> f \<and> 0 \<le> s
           \<and> (g ''failed'' = None \<longrightarrow> f = 0) \<and> (g ''success'' = None \<longrightarrow> s = 0)
           \<and> (\<forall>v. g ''failed'' = Some v \<longrightarrow> f = int (digits_val v))
           \<and> (\<forall>v. g ''success'' = Some v \<longrightarrow> s = int (digits_val v))
           \<and> parse_log_line line =
               ([], bind (seconds_duration (g ''time'')) (\<lambda>duration.
                      Inr [''failed'' \<mapsto> PInt f, ''total'' \<mapsto> PInt (f + s),
                           ''duration'' \<mapsto> PStr (str_duration duration),
                           ''ratio'' \<mapsto> PStr (ratio_text s (f + s))]))"
proof -
  have ok: "counts_ok g" using assms by (rule counts_ok_match)
  from count_of_ok[OF ok, of "''failed''"] obtain f where
    f: "0 \<le> f" "count_of (g ''failed'') = Inr (Some f)" "g ''failed'' = None \<longrightarrow> f = 0"
       "\<forall>v. g ''failed'' = Some v \<longrightarrow> f = int (digits_val v)" by auto
  from count_of_ok[OF ok, of "''success''"] obtain s where
    s: "0 \<le> s" "count_of (g ''success'') = Inr (Some s)" "g ''success'' = None \<longrightarrow> s = 0"
       "\<forall>v. g ''success'' = Some v \<longrightarrow> s = int (digits_val v)" by auto
  have t: "f + s \<noteq> 0 \<Longrightarrow> \<exists>m q. true_div s (f + s) = Inr (Fin False m q)"
    using f(1) s(1) by (intro true_div_counts) auto
  have main: "parse_log_line line =
               ([], bind (seconds_duration (g ''time'')) (\<lambda>duration.
                      Inr [''failed'' \<mapsto> PInt f, ''total'' \<mapsto> PInt (f + s),
                           ''duration'' \<mapsto> PStr (str_duration duration),
                           ''ratio'' \<mapsto> PStr (ratio_text s (f + s))]))"
  proof (cases "f + s = 0")
    case True
    then have z: "f = 0" "s = 0" using f(1) s(1) by auto
    have c: "count_of (g ''failed'') = Inr (Some 0)" "count_of (g ''success'') = Inr (Some 0)"
      using f(2) s(2) z by simp_all
    show ?thesis unfolding z
      by (cases "seconds_duration (g ''time'')")
         (simp_all add: parse_log_line_def assms c bind_def ratio_text_def format_pct0_zero
            del: format_pct0.simps)
  next
    case False
    from t[OF this] obtain m q where d: "true_div s (f + s) = Inr (Fin False m q)" by blast
    show ?thesis
      by (cases "seconds_duration (g ''time'')")
         (simp_all add: parse_log_line_def assms f(2) s(2) False d bind_def ratio_text_def Let_def
            del: format_pct0.simps)
  qed
  show ?thesis
    by (rule exI[of _ f], rule exI[of _ s]) (use f s main in simp)
qed

lemma seconds_duration_unparsed:
  "(\<forall>t. tm = Some t \<longrightarrow> py_float t = Inl ValueError) \<Longrightarrow> seconds_duration tm = Inr None"
  by (cases tm) (auto simp: seconds_duration_def safe_cast_def bind_def)

lemma seconds_duration_finite:
  assumes "py_float t = Inr x" "seconds_duration (Some t) = Inr duration"
  shows "\<exists>neg m q. x = Fin neg m q"
  using assms by (cases x) (auto simp: seconds_duration_def safe_cast_def bind_def)

section \<open>What the pattern asks of a line\<close>

lemma runs_suffix: "(s', g') \<in> set (runs r (s, g)) \<Longrightarrow> suffix s' s"
proof (induction r arbitrary: s g s' g')
  case (Seq a b)
  then obtain s1 g1 where "(s1, g1) \<in> set (runs a (s, g))" "(s', g') \<in> set (runs b (s1, g1))"
    by auto
  then show ?case using Seq.IH by (meson suffix_order.trans)
next
  case (Star c)
  then show ?case using star_alts_suffix by auto
next
  case (Plus c)
  then show ?case using star_alts_suffix by (cases s) (auto split: if_splits intro: suffix_ConsI)
next
  case (Group n a)
  then show ?case by auto
qed (auto split: list.splits if_splits intro: suffix_ConsI)

lemma contains_starts_with: "starts_with w s \<Longrightarrow> contains w s"
  by (cases s) (auto simp: starts_with_def)

lemma contains_Cons: "contains w s \<Longrightarrow> contains w (x # s)"
  by simp

lemma contains_suffix: "suffix y s \<Longrightarrow> contains w y \<Longrightarrow> contains w s"
proof (induction s)
  case Nil
  then show ?case by simp
next
  case (Cons x s)
  then show ?case by (cases "y = x # s") (auto simp: suffix_Cons)
qed

lemma needs_step:
  assumes "\<And>s g. runs b (s, g) \<noteq> [] \<Longrightarrow> contains w s" "runs (Seq a b) (s, g) \<noteq> []"
  shows "contains w s"
proof -
  from assms(2) obtain y where y: "y \<in> set (runs a (s, g))" "runs b y \<noteq> []" by auto
  obtain s1 g1 where "y = (s1, g1)" by (cases y)
  then show ?thesis using y assms(1) runs_suffix contains_suffix by blast
qed

lemma needs_seconds:
  assumes "runs RESULT_PATTERN (s, g) \<noteq> []"
  shows "contains '' seconds'' s"
proof -
  have 1: "contains '' seconds'' s" if "runs seconds_tail (s, g) \<noteq> []" for s g
    using that by (auto simp: seconds_tail_def runs_Str contains_starts_with split: if_splits)
  have 2: "contains '' seconds'' s" if "runs time_tail (s, g) \<noteq> []" for s g
    using that 1 unfolding time_tail_def by (rule needs_step[rotated])
  have 3: "contains '' seconds'' s" if "runs in_tail (s, g) \<noteq> []" for s g
    using that 2 unfolding in_tail_def by (rule needs_step[rotated])
  have 4: "contains '' seconds'' s" if "runs filler_tail (s, g) \<noteq> []" for s g
    using that 3 unfolding filler_tail_def by (rule needs_step[rotated])
  have 5: "contains '' seconds'' s" if "runs passed_tail (s, g) \<noteq> []" for s g
    using that 4 unfolding passed_tail_def by (rule needs_step[rotated])
  have 6: "contains '' seconds'' s" if "runs blank_tail (s, g) \<noteq> []" for s g
    using that 5 unfolding blank_tail_def by (rule needs_step[rotated])
  have 7: "contains '' seconds'' s" if "runs comma_tail (s, g) \<noteq> []" for s g
    using that 6 unfolding comma_tail_def by (rule needs_step[rotated])
  have 8: "contains '' seconds'' s" if "runs failed_tail (s, g) \<noteq> []" for s g
    using that 7 unfolding failed_tail_def by (rule needs_step[rotated])
  have 9: "contains '' seconds'' s"
    if "runs (Seq (Plus (Lit CHR ''='')) failed_tail) (s, g) \<noteq> []" for s g
    using that 8 by (rule needs_step[rotated])
  show ?thesis using assms 9 unfolding RESULT_PATTERN_tails by (rule needs_step[rotated])
qed

lemma runs_Seq_left: "runs (Seq a b) sg \<noteq> [] \<Longrightarrow> runs a sg \<noteq> []"
  by auto

lemma runs_Seq_Str_ne:
  assumes "runs (Seq (Str w) b) (s, g) \<noteq> []"
  shows "starts_with w s \<and> runs b (drop (length w) s, g) \<noteq> []"
proof (cases "starts_with w s")
  case True
  then show ?thesis using assms by (simp add: runs_Str)
next
  case False
  then show ?thesis using assms by (simp add: runs_Str)
qed

lemma needs_banner:
  assumes "runs RESULT_PATTERN (s, g) \<noteq> []"
  shows "starts_with ''==='' s"
proof -
  have "runs (Seq (Str ''=='') (Seq (Plus (Lit CHR ''='')) failed_tail)) (s, g) \<noteq> []"
    using assms unfolding RESULT_PATTERN_tails .
  then have a: "starts_with ''=='' s"
    and b: "runs (Seq (Plus (Lit CHR ''='')) failed_tail) (drop (length ''=='') s, g) \<noteq> []"
    using runs_Seq_Str_ne by blast+
  from a obtain u where u: "s = ''=='' @ u" by (rule starts_withD)
  from b have "runs (Plus (Lit CHR ''='')) (drop (length ''=='') s, g) \<noteq> []"
    by (rule runs_Seq_left)
  then have "runs (Plus (Lit CHR ''='')) (u, g) \<noteq> []" using u by simp
  then obtain r where "u = CHR ''='' # r" by (cases u) (auto split: if_splits)
  then show ?thesis using u by (simp add: starts_with_def)
qed

lemma unmatched:
  "\<not> starts_with ''==='' line \<or> \<not> contains '' seconds'' line
     \<Longrightarrow> re_match RESULT_PATTERN line = None"
  using needs_banner[of line Map.empty] needs_seconds[of line Map.empty]
  by (auto simp: re_match_def split: list.splits)

section \<open>Summary Parser: the claims\<close>

lemma summary_line_eval:
  "summary_line 5 f p t 5 =
     ''===== '' @ dec f @ '' failed, '' @ dec p @ '' passed in '' @ t @ '' seconds =====''"
  by (simp add: summary_line_def numeral_eq_Suc)

lemma no_counts_line_eval:
  "no_counts_line 5 w t 5 = ''===== '' @ w @ ''in '' @ t @ '' seconds =====''"
  by (simp add: no_counts_line_def numeral_eq_Suc)

lemma duration_one_second:
  "py_float ''1'' = Inr (Fin False 4503599627370496 (- 52))"
  "seconds_duration (Some ''1'') = Inr (Some \<lparr>days = 0, seconds = 1, microseconds = 0\<rparr>)"
  "str_duration (Some \<lparr>days = 0, seconds = 1, microseconds = 0\<rparr>) = ''0:00:01''"
  by (simp_all add: number_eval is_digit_def)

text \<open>
  Claim C1, as amended.  Take a summary line made of three or more \<^verbatim>\<open>=\<close>, a blank, the
  decimal numeral of \<open>f\<close>, \<^verbatim>\<open> failed, \<close>, the decimal numeral of \<open>p\<close>, \<^verbatim>\<open> passed in \<close>, a
  seconds text \<open>t\<close>, \<^verbatim>\<open> seconds \<close> and a closing run of \<^verbatim>\<open>=\<close>, where \<open>t\<close> holds no line feed,
  parses as a float and gives a duration (it is zero, or finite and within the range
  of \<^verbatim>\<open>timedelta\<close>).  The parser logs nothing and returns \<^verbatim>\<open>failed\<close> \<open>= f\<close>,
  \<^verbatim>\<open>total\<close> \<open>= f + p\<close>, the duration text, and a ratio that is \<^verbatim>\<open>0%\<close> when \<open>f + p = 0\<close> and
  otherwise the text Python's float arithmetic gives: the binary64 quotient of \<open>p\<close> by
  \<open>f + p\<close>, multiplied by 100 in binary64, rounded to the nearest integer with ties to
  even, followed by the percent sign.
\<close>

theorem summary_line_parsed:
  assumes "3 \<le> m" "newline \<notin> set t" "py_float t = Inr x"
    and "seconds_duration (Some t) = Inr duration"
  shows "parse_log_line (summary_line m f p t n) =
           ([], Inr [''failed'' \<mapsto> PInt (int f), ''total'' \<mapsto> PInt (int f + int p),
                     ''duration'' \<mapsto> PStr (str_duration duration),
                     ''ratio'' \<mapsto> PStr (ratio_text (int p) (int f + int p))])
         \<and> (f + p = 0 \<longrightarrow> ratio_text (int p) (int f + int p) = ''0%'')
         \<and> (0 < f + p \<longrightarrow>
              (\<exists>mm q. true_div (int p) (int f + int p) = Inr (Fin False mm q)
                 \<and> ratio_text (int p) (int f + int p) = format_pct0 (Fin False mm q)))"
proof (intro conjI impI)
  obtain neg mm q where "x = Fin neg mm q"
    using seconds_duration_finite[OF assms(3,4)] by blast
  then have i: "CHR ''i'' \<notin> set t" using assms(3) py_float_finite_no_i by blast
  let ?g = "[''failed'' \<mapsto> dec f, ''success'' \<mapsto> dec p, ''time'' \<mapsto> t]"
  have m: "re_match RESULT_PATTERN (summary_line m f p t n) = Some ?g"
    unfolding summary_line_def
    using re_match_summary_line[OF assms(1) digits_only_dec digits_only_dec assms(2) i] .
  from parse_matched[OF m] obtain f' s' where
    fs: "f' = int (digits_val (dec f))" "s' = int (digits_val (dec p))"
    and pl: "parse_log_line (summary_line m f p t n) =
               ([], bind (seconds_duration (?g ''time'')) (\<lambda>duration.
                      Inr [''failed'' \<mapsto> PInt f', ''total'' \<mapsto> PInt (f' + s'),
                           ''duration'' \<mapsto> PStr (str_duration duration),
                           ''ratio'' \<mapsto> PStr (ratio_text s' (f' + s'))]))"
    by auto
  have "?g ''time'' = Some t" by simp
  then show "parse_log_line (summary_line m f p t n) =
           ([], Inr [''failed'' \<mapsto> PInt (int f), ''total'' \<mapsto> PInt (int f + int p),
                     ''duration'' \<mapsto> PStr (str_duration duration),
                     ''ratio'' \<mapsto> PStr (ratio_text (int p) (int f + int p))])"
    using pl fs assms(4) by (simp add: digits_val_dec bind_def)
next
  assume "f + p = 0"
  then show "ratio_text (int p) (int f + int p) = ''0%''" by (simp add: ratio_text_def)
next
  assume a: "0 < f + p"
  then obtain mm q where d: "true_div (int p) (int f + int p) = Inr (Fin False mm q)"
    using true_div_counts[of "int p" "int f + int p"] by auto
  moreover have "int f + int p \<noteq> 0" using a by linarith
  ultimately have "ratio_text (int p) (int f + int p) = format_pct0 (Fin False mm q)"
    by (simp add: ratio_text_def del: format_pct0.simps)
  with d show "\<exists>mm q. true_div (int p) (int f + int p) = Inr (Fin False mm q)
                 \<and> ratio_text (int p) (int f + int p) = format_pct0 (Fin False mm q)"
    by blast
qed

text \<open>Claim C1 on the first example of the docstring: one of two tests passed.\<close>

theorem summary_line_witness:
  "parse_log_line ''===== 1 failed, 1 passed in 1 seconds =====''
     = ([], Inr [''failed'' \<mapsto> PInt 1, ''total'' \<mapsto> PInt 2,
                 ''duration'' \<mapsto> PStr ''0:00:01'', ''ratio'' \<mapsto> PStr ''50%''])"
proof -
  have n: "newline \<notin> set ''1''" by (simp add: newline_def)
  have r: "ratio_text 1 2 = ''50%''" by (simp add: ratio_text_def number_eval)
  from summary_line_parsed[OF _ n duration_one_second(1) duration_one_second(2), of 5 1 1 5]
  have "parse_log_line (summary_line 5 1 1 ''1'' 5) =
           ([], Inr [''failed'' \<mapsto> PInt (int 1), ''total'' \<mapsto> PInt (int 1 + int 1),
                     ''duration'' \<mapsto> PStr (str_duration (Some \<lparr>days = 0, seconds = 1, microseconds = 0\<rparr>)),
                     ''ratio'' \<mapsto> PStr (ratio_text (int 1) (int 1 + int 1))])"
    by simp
  then show ?thesis by (simp add: summary_line_eval dec_eval duration_one_second(3) r)
qed

text \<open>
  Claim C1 as stated fails: with 23 of 40 tests passed the share is exactly 57.5 percent,
  which rounds to 58 percent (a half up, or a half to the even neighbour), but the
  parser reports \<^verbatim>\<open>57%\<close>: the binary64 quotient lies just below 0.575 and its product with
  100 just below 57.5.
\<close>

theorem summary_ratio_counterexample:
  "summary_line 5 17 23 ''1'' 5 = ''===== 17 failed, 23 passed in 1 seconds =====''
   \<and> parse_log_line ''===== 17 failed, 23 passed in 1 seconds =====''
     = ([], Inr [''failed'' \<mapsto> PInt 17, ''total'' \<mapsto> PInt 40,
                 ''duration'' \<mapsto> PStr ''0:00:01'', ''ratio'' \<mapsto> PStr ''57%''])
   \<and> exact_percent 23 40 = ''58%''"
proof (intro conjI)
  show "summary_line 5 17 23 ''1'' 5 = ''===== 17 failed, 23 passed in 1 seconds =====''"
    by (simp add: summary_line_eval dec_eval digit_chr_def)
  have g: "re_match RESULT_PATTERN ''===== 17 failed, 23 passed in 1 seconds =====''
            = Some [''failed'' \<mapsto> ''17'', ''success'' \<mapsto> ''23'', ''time'' \<mapsto> ''1'']"
    by (simp add: regex_eval)
  have c: "count_of (Some ''17'') = Inr (Some 17)" "count_of (Some ''23'') = Inr (Some 23)"
    by (simp_all add: number_eval is_digit_def)
  have d: "true_div 23 40 = Inr (Fin False 5179139571476070 (- 53))"
    by (simp add: true_div_def round64_def floor_log2_def bits_eval rne_div_def)
  have f: "format_pct0 (Fin False 5179139571476070 (- 53)) = ''57%''"
    by (simp add: round64_def floor_log2_def bits_eval rne_div_def dec_eval digit_chr_def)
  show "parse_log_line ''===== 17 failed, 23 passed in 1 seconds =====''
     = ([], Inr [''failed'' \<mapsto> PInt 17, ''total'' \<mapsto> PInt 40,
                 ''duration'' \<mapsto> PStr ''0:00:01'', ''ratio'' \<mapsto> PStr ''57%''])"
    by (simp add: parse_log_line_def g c d f duration_one_second bind_def
          del: format_pct0.simps)
  show "exact_percent 23 40 = ''58%''"
    by (simp add: exact_percent_def rne_div_def dec_eval digit_chr_def)
qed

text \<open>
  Claim C9, as amended.  Take a line made of three or more \<^verbatim>\<open>=\<close>, a blank, a text \<open>w\<close>,
  \<^verbatim>\<open>in \<close>, a seconds text \<open>t\<close>, \<^verbatim>\<open> seconds \<close> and a closing run of \<^verbatim>\<open>=\<close>, where \<open>w\<close> holds no
  line feed and begins neither with a count and \<^verbatim>\<open> failed\<close> nor with a count and
  \<^verbatim>\<open> passed\<close>, and where \<open>t\<close> holds no line feed and no letter \<^verbatim>\<open>i\<close> and gives a duration or
  none (it is no float, or zero, or finite and within the range of \<^verbatim>\<open>timedelta\<close>).  The
  parser logs nothing and returns \<^verbatim>\<open>failed = 0\<close>, \<^verbatim>\<open>total = 0\<close> and \<^verbatim>\<open>ratio = "0%"\<close>, with
  the duration text.
\<close>

theorem no_counts_line_parsed:
  assumes "3 \<le> m" "newline \<notin> set w"
    and "\<not> count_clause '' failed'' w" "\<not> count_clause '' passed'' w"
    and "newline \<notin> set t" "CHR ''i'' \<notin> set t"
    and "seconds_duration (Some t) = Inr duration"
  shows "parse_log_line (no_counts_line m w t n) =
           ([], Inr [''failed'' \<mapsto> PInt 0, ''total'' \<mapsto> PInt 0,
                     ''duration'' \<mapsto> PStr (str_duration duration), ''ratio'' \<mapsto> PStr ''0%''])"
proof -
  let ?g = "[''time'' \<mapsto> t]"
  have m: "re_match RESULT_PATTERN (no_counts_line m w t n) = Some ?g"
    using assms(1-6) by (rule re_match_no_counts_line)
  have "?g ''failed'' = None" "?g ''success'' = None" "seconds_duration (?g ''time'') = Inr duration"
    using assms(7) by simp_all
  with parse_matched[OF m] show ?thesis
    by (auto simp: bind_def ratio_text_def)
qed

text \<open>Claim C9 on the two lines it names.\<close>

theorem no_counts_line_witness:
  "parse_log_line ''===== no tests ran in 1 seconds =====''
       = ([], Inr [''failed'' \<mapsto> PInt 0, ''total'' \<mapsto> PInt 0,
                   ''duration'' \<mapsto> PStr ''0:00:01'', ''ratio'' \<mapsto> PStr ''0%''])
   \<and> parse_log_line ''===== 1 deselected in 1 seconds =====''
       = ([], Inr [''failed'' \<mapsto> PInt 0, ''total'' \<mapsto> PInt 0,
                   ''duration'' \<mapsto> PStr ''0:00:01'', ''ratio'' \<mapsto> PStr ''0%''])"
proof
  have t: "newline \<notin> set ''1''" "CHR ''i'' \<notin> set ''1''" by (simp_all add: newline_def)
  have a: "newline \<notin> set ''no tests ran ''" "\<not> count_clause '' failed'' ''no tests ran ''"
    "\<not> count_clause '' passed'' ''no tests ran ''"
    by (simp_all add: newline_def count_clause_def is_digit_def)
  from no_counts_line_parsed[OF _ a t duration_one_second(2), of 5 5]
  show "parse_log_line ''===== no tests ran in 1 seconds =====''
       = ([], Inr [''failed'' \<mapsto> PInt 0, ''total'' \<mapsto> PInt 0,
                   ''duration'' \<mapsto> PStr ''0:00:01'', ''ratio'' \<mapsto> PStr ''0%''])"
    by (simp add: no_counts_line_eval duration_one_second(3))
  have b: "newline \<notin> set ''1 deselected ''" "\<not> count_clause '' failed'' ''1 deselected ''"
    "\<not> count_clause '' passed'' ''1 deselected ''"
    by (simp_all add: newline_def count_clause_def is_digit_def starts_with_def)
  from no_counts_line_parsed[OF _ b t duration_one_second(2), of 5 5]
  show "parse_log_line ''===== 1 deselected in 1 seconds =====''
       = ([], Inr [''failed'' \<mapsto> PInt 0, ''total'' \<mapsto> PInt 0,
                   ''duration'' \<mapsto> PStr ''0:00:01'', ''ratio'' \<mapsto> PStr ''0%''])"
    by (simp add: no_counts_line_eval duration_one_second(3))
qed

text \<open>
  Claim C9 as stated fails on lines that have an \<^verbatim>\<open>in <t> seconds\<close> clause and no count.
  A banner without a blank after its opening run is not matched by the pattern of the
  parser: the result is empty and an error is logged.  And the seconds text \<^verbatim>\<open>nan\<close>, which
  is a float, makes the constructor of the duration raise.
\<close>

theorem no_counts_counterexample:
  "is_banner ''=====no tests ran in 1 seconds=====''
   \<and> parse_log_line ''=====no tests ran in 1 seconds=====''
       = ([(ERROR, ''impossible to parse results: =====no tests ran in 1 seconds====='')],
          Inr Map.empty)
   \<and> no_counts_line 5 ''no tests ran '' ''nan'' 5 = ''===== no tests ran in nan seconds =====''
   \<and> py_float ''nan'' = Inr NaN
   \<and> parse_log_line ''===== no tests ran in nan seconds ====='' = ([], Inl ValueError)"
proof (intro conjI)
  show "is_banner ''=====no tests ran in 1 seconds=====''" by (simp add: regex_eval)
  have "re_match RESULT_PATTERN ''=====no tests ran in 1 seconds====='' = None"
    by (simp add: regex_eval)
  then show "parse_log_line ''=====no tests ran in 1 seconds=====''
       = ([(ERROR, ''impossible to parse results: =====no tests ran in 1 seconds====='')],
          Inr Map.empty)"
    by (simp add: parse_log_line_def)
  show "no_counts_line 5 ''no tests ran '' ''nan'' 5 = ''===== no tests ran in nan seconds =====''"
    by (simp add: no_counts_line_eval)
  show "py_float ''nan'' = Inr NaN" by (simp add: number_eval is_digit_def)
  have n: "seconds_duration (Some ''nan'') = Inl ValueError"
    by (simp add: number_eval is_digit_def)
  have g: "re_match RESULT_PATTERN ''===== no tests ran in nan seconds =====''
             = Some [''time'' \<mapsto> ''nan'']"
    by (simp add: regex_eval)
  from parse_matched[OF g] n
  show "parse_log_line ''===== no tests ran in nan seconds ====='' = ([], Inl ValueError)"
    by (auto simp: bind_def)
qed

text \<open>
  Claim C3, as amended.  For a line that the pattern of the parser does not match the
  parser returns the empty dictionary, logs one error that quotes the line, and raises
  nothing; a line that does not start with \<^verbatim>\<open>===\<close>, and a line without \<^verbatim>\<open> seconds\<close>, are
  such lines.  For a line that the pattern matches and whose seconds text does not
  parse as a float, the parser raises nothing either, but it logs nothing and returns
  the four fields: the counts, and \<^verbatim>\<open>None\<close> printed as the duration.
\<close>

theorem unmatched_line_empty_result:
  "(re_match RESULT_PATTERN line = None \<longrightarrow>
      parse_log_line line = ([(ERROR, ''impossible to parse results: '' @ line)], Inr Map.empty))
   \<and> (\<not> starts_with ''==='' line \<or> \<not> contains '' seconds'' line \<longrightarrow>
        re_match RESULT_PATTERN line = None)
   \<and> (re_match RESULT_PATTERN line = Some g
        \<and> (\<forall>t. g ''time'' = Some t \<longrightarrow> py_float t = Inl ValueError) \<longrightarrow>
        (\<exists>f s. 0 \<le> f \<and> 0 \<le> s \<and>
           parse_log_line line =
             ([], Inr [''failed'' \<mapsto> PInt f, ''total'' \<mapsto> PInt (f + s),
                       ''duration'' \<mapsto> PStr ''None'',
                       ''ratio'' \<mapsto> PStr (ratio_text s (f + s))])))"
proof (intro conjI impI)
  assume "re_match RESULT_PATTERN line = None"
  then show "parse_log_line line
               = ([(ERROR, ''impossible to parse results: '' @ line)], Inr Map.empty)"
    by (simp add: parse_log_line_def)
next
  assume "\<not> starts_with ''==='' line \<or> \<not> contains '' seconds'' line"
  then show "re_match RESULT_PATTERN line = None" by (rule unmatched)
next
  assume a: "re_match RESULT_PATTERN line = Some g
        \<and> (\<forall>t. g ''time'' = Some t \<longrightarrow> py_float t = Inl ValueError)"
  then have m: "re_match RESULT_PATTERN line = Some g"
    and d: "seconds_duration (g ''time'') = Inr None"
    using seconds_duration_unparsed[of "g ''time''"] by auto
  from parse_matched[OF m] obtain f s where
    "0 \<le> f" "0 \<le> s"
    "parse_log_line line =
               ([], bind (seconds_duration (g ''time'')) (\<lambda>duration.
                      Inr [''failed'' \<mapsto> PInt f, ''total'' \<mapsto> PInt (f + s),
                           ''duration'' \<mapsto> PStr (str_duration duration),
                           ''ratio'' \<mapsto> PStr (ratio_text s (f + s))]))"
    by blast
  then show "\<exists>f s. 0 \<le> f \<and> 0 \<le> s \<and>
           parse_log_line line =
             ([], Inr [''failed'' \<mapsto> PInt f, ''total'' \<mapsto> PInt (f + s),
                       ''duration'' \<mapsto> PStr ''None'',
                       ''ratio'' \<mapsto> PStr (ratio_text s (f + s))])"
    using d by (intro exI[of _ f] exI[of _ s]) (simp add: bind_def str_duration_def)
qed

text \<open>Claim C3 on the banner that opens a test session: it has no seconds.\<close>

theorem unmatched_line_witness:
  "parse_log_line ''===== test session starts =====''
     = ([(ERROR, ''impossible to parse results: ===== test session starts ====='')],
        Inr Map.empty)"
proof -
  have "\<not> contains '' seconds'' ''===== test session starts =====''"
    by (simp add: starts_with_def)
  with unmatched_line_empty_result[of "''===== test session starts =====''" Map.empty]
  show ?thesis by simp
qed

text \<open>
  Claim C3 as stated fails twice.  A banner whose seconds text is no float is not
  rejected: no error is logged and the result has its four fields.  And a line that
  is no banner for the Line Classifier (it has no closing run of \<^verbatim>\<open>=\<close>) is parsed all the
  same, since the pattern of the parser asks for the opening run only.
\<close>

theorem unparsed_seconds_counterexample:
  "is_banner ''===== 1 passed in abc seconds =====''
   \<and> py_float ''abc'' = Inl ValueError
   \<and> parse_log_line ''===== 1 passed in abc seconds =====''
       = ([], Inr [''failed'' \<mapsto> PInt 0, ''total'' \<mapsto> PInt 1,
                   ''duration'' \<mapsto> PStr ''None'', ''ratio'' \<mapsto> PStr ''100%''])
   \<and> \<not> is_banner ''=== 1 passed in 1 seconds''
   \<and> parse_log_line ''=== 1 passed in 1 seconds''
       = ([], Inr [''failed'' \<mapsto> PInt 0, ''total'' \<mapsto> PInt 1,
                   ''duration'' \<mapsto> PStr ''0:00:01'', ''ratio'' \<mapsto> PStr ''100%''])"
proof (intro conjI)
  show "is_banner ''===== 1 passed in abc seconds =====''" by (simp add: regex_eval)
  show abc: "py_float ''abc'' = Inl ValueError" by (simp add: number_eval is_digit_def)
  have c: "count_of (Some ''1'') = Inr (Some 1)" by (simp add: number_eval is_digit_def)
  have r: "ratio_text 1 1 = ''100%''" by (simp add: ratio_text_def number_eval)
  have d: "seconds_duration (Some ''abc'') = Inr None"
    using seconds_duration_unparsed[of "Some ''abc''"] abc by simp
  have g: "re_match RESULT_PATTERN ''===== 1 passed in abc seconds =====''
             = Some [''success'' \<mapsto> ''1'', ''time'' \<mapsto> ''abc'']"
    by (simp add: regex_eval)
  from parse_matched[OF g] c d r
  show "parse_log_line ''===== 1 passed in abc seconds =====''
       = ([], Inr [''failed'' \<mapsto> PInt 0, ''total'' \<mapsto> PInt 1,
                   ''duration'' \<mapsto> PStr ''None'', ''ratio'' \<mapsto> PStr ''100%''])"
    by (auto simp: bind_def str_duration_def digits_val_def digit_val_def)
  show "\<not> is_banner ''=== 1 passed in 1 seconds''" by (simp add: regex_eval)
  have g2: "re_match RESULT_PATTERN ''=== 1 passed in 1 seconds''
             = Some [''success'' \<mapsto> ''1'', ''time'' \<mapsto> ''1'']"
    by (simp add: regex_eval)
  from parse_matched[OF g2] c r
  show "parse_log_line ''=== 1 passed in 1 seconds''
       = ([], Inr [''failed'' \<mapsto> PInt 0, ''total'' \<mapsto> PInt 1,
                   ''duration'' \<mapsto> PStr ''0:00:01'', ''ratio'' \<mapsto> PStr ''100%''])"
    by (auto simp: bind_def duration_one_second digits_val_def digit_val_def)
qed

text \<open>
  Claim C4 fails on the code.  The duration of a run of zero seconds, which the
  test runner prints as \<^verbatim>\<open>0.00 seconds\<close>, is not rendered as \<^verbatim>\<open>0:00:00\<close>: zero counts as
  false on line 94, the duration is \<^verbatim>\<open>None\<close>, and line 100 prints it as the text
  \<^verbatim>\<open>None\<close>.  A seconds text that is no float ends the same way, with a field that is
  present and holds that text; and the seconds text \<^verbatim>\<open>nan\<close>, which is a float, makes the
  constructor of the duration raise.
\<close>

theorem zero_seconds_duration_None:
  "parse_log_line ''===== 1 passed in 0.00 seconds =====''
       = ([], Inr [''failed'' \<mapsto> PInt 0, ''total'' \<mapsto> PInt 1,
                   ''duration'' \<mapsto> PStr ''None'', ''ratio'' \<mapsto> PStr ''100%''])
   \<and> parse_log_line ''===== 1 passed in soon seconds =====''
       = ([], Inr [''failed'' \<mapsto> PInt 0, ''total'' \<mapsto> PInt 1,
                   ''duration'' \<mapsto> PStr ''None'', ''ratio'' \<mapsto> PStr ''100%''])
   \<and> parse_log_line ''===== 1 passed in nan seconds ====='' = ([], Inl ValueError)"
proof (intro conjI)
  have r: "ratio_text 1 1 = ''100%''" by (simp add: ratio_text_def number_eval)
  have z: "seconds_duration (Some ''0.00'') = Inr None"
    by (simp add: number_eval is_digit_def)
  have s: "seconds_duration (Some ''soon'') = Inr None"
    by (simp add: number_eval is_digit_def)
  have n: "seconds_duration (Some ''nan'') = Inl ValueError"
    by (simp add: number_eval is_digit_def)
  have g1: "re_match RESULT_PATTERN ''===== 1 passed in 0.00 seconds =====''
             = Some [''success'' \<mapsto> ''1'', ''time'' \<mapsto> ''0.00'']"
    by (simp add: regex_eval)
  have g2: "re_match RESULT_PATTERN ''===== 1 passed in soon seconds =====''
             = Some [''success'' \<mapsto> ''1'', ''time'' \<mapsto> ''soon'']"
    by (simp add: regex_eval)
  have g3: "re_match RESULT_PATTERN ''===== 1 passed in nan seconds =====''
             = Some [''success'' \<mapsto> ''1'', ''time'' \<mapsto> ''nan'']"
    by (simp add: regex_eval)
  from parse_matched[OF g1] z r
  show "parse_log_line ''===== 1 passed in 0.00 seconds =====''
       = ([], Inr [''failed'' \<mapsto> PInt 0, ''total'' \<mapsto> PInt 1,
                   ''duration'' \<mapsto> PStr ''None'', ''ratio'' \<mapsto> PStr ''100%''])"
    by (auto simp: bind_def str_duration_def digits_val_def digit_val_def)
  from parse_matched[OF g2] s r
  show "parse_log_line ''===== 1 passed in soon seconds =====''
       = ([], Inr [''failed'' \<mapsto> PInt 0, ''total'' \<mapsto> PInt 1,
                   ''duration'' \<mapsto> PStr ''None'', ''ratio'' \<mapsto> PStr ''100%''])"
    by (auto simp: bind_def str_duration_def digits_val_def digit_val_def)
  from parse_matched[OF g3] n
  show "parse_log_line ''===== 1 passed in nan seconds ====='' = ([], Inl ValueError)"
    by (auto simp: bind_def)
qed

end
